theory Spec2Isabelle
  imports Main
begin

section \<open>Python values\<close>

text \<open>
  The script \<^verbatim>\<open>BGP_Neighbors_Established_Revised.py\<close> walks the nested dictionary that
  Genie's \<^verbatim>\<open>Bgp.info\<close> holds. Python is dynamically typed, so a snapshot is a value of
  \<open>pyval\<close>: any level of it may be a dictionary or something else. A dictionary is an
  association list in insertion order (the order \<^verbatim>\<open>items()\<close> iterates in); its keys are
  strings, as the keys of a learnt snapshot are.

  A method called on a value that does not have it raises \<^verbatim>\<open>AttributeError\<close>
  (\<^verbatim>\<open>'str' object has no attribute 'get'\<close>), a missing key read with \<^verbatim>\<open>d[k]\<close> raises
  \<^verbatim>\<open>KeyError\<close>, and an item stored into a value that is no container raises
  \<^verbatim>\<open>TypeError\<close>.
\<close>

datatype pyval =
    PNone
  | PBool bool
  | PInt int
  | PStr string
  | PList "pyval list"
  | PDict "(string \<times> pyval) list"

datatype py_error = AttributeError | KeyError | TypeError

type_synonym 'v pydict = "(string \<times> 'v) list"

text \<open>\<^verbatim>\<open>d.get(key, default)\<close>: the value under the key, the default when the key is absent.\<close>

fun dict_get :: "pyval \<Rightarrow> string \<Rightarrow> pyval \<Rightarrow> py_error + pyval" where
  "dict_get (PDict d) k dflt = Inr (case map_of d k of None \<Rightarrow> dflt | Some v \<Rightarrow> v)"
| "dict_get _ k dflt = Inl AttributeError"

text \<open>\<^verbatim>\<open>d.items()\<close>: the pairs in insertion order.\<close>

fun dict_items :: "pyval \<Rightarrow> py_error + pyval pydict" where
  "dict_items (PDict d) = Inr d"
| "dict_items _ = Inl AttributeError"

text \<open>\<^verbatim>\<open>d[k] = v\<close>: an existing key keeps its place, a new key goes last.\<close>

fun dict_setitem :: "'v pydict \<Rightarrow> string \<Rightarrow> 'v \<Rightarrow> 'v pydict" where
  "dict_setitem [] k v = [(k, v)]"
| "dict_setitem ((k', v') # d) k v =
     (if k' = k then (k, v) # d else (k', v') # dict_setitem d k v)"

text \<open>
  \<^verbatim>\<open>d.setdefault(k, v)\<close>: the value under the key when it is there; otherwise the key is
  added with the default, which is returned. The result is the dictionary afterwards and
  the value returned.
\<close>

definition dict_setdefault :: "'v pydict \<Rightarrow> string \<Rightarrow> 'v \<Rightarrow> 'v pydict \<times> 'v" where
  "dict_setdefault d k v =
     (case map_of d k of Some w \<Rightarrow> (d, w) | None \<Rightarrow> (d @ [(k, v)], v))"

subsection \<open>Strings\<close>

text \<open>
  \<^verbatim>\<open>str.lower()\<close> and \<^verbatim>\<open>str.capitalize()\<close> as they act on ASCII text, which is what the
  states of a BGP session are (\<open>Established\<close>, \<open>Idle\<close>, \<open>Active\<close>, ...): the letters A to Z
  and a to z change case, every other character stays.

  Scope. A Python string is a sequence of Unicode code points and both methods follow the
  Unicode case mappings; a \<^typ>\<open>char\<close> here has eight bits and \<open>lower_chr\<close>, \<open>upper_chr\<close> leave
  every character outside ASCII as it is. So \<open>str_lower\<close> and \<open>str_capitalize\<close> are the two
  methods on the strings that satisfy \<open>isascii\<close> (Python's \<^verbatim>\<open>str.isascii()\<close>) and on no others:
  for a state with a letter outside ASCII, Python changes the case of that letter too, and
  the text of the State column differs from what \<open>str_capitalize\<close> gives. The verdict does
  not depend on this: the only characters that \<^verbatim>\<open>str.lower()\<close> maps to a letter of
  \<open>established\<close> are that letter and its ASCII capital, so a state with any other character
  fails in Python as it fails here.
\<close>

definition ascii_uppercase :: string where
  "ascii_uppercase = ''ABCDEFGHIJKLMNOPQRSTUVWXYZ''"

definition ascii_lowercase :: string where
  "ascii_lowercase = ''abcdefghijklmnopqrstuvwxyz''"

definition lower_chr :: "char \<Rightarrow> char" where
  "lower_chr c =
     (case map_of (zip ascii_uppercase ascii_lowercase) c of None \<Rightarrow> c | Some l \<Rightarrow> l)"

definition upper_chr :: "char \<Rightarrow> char" where
  "upper_chr c =
     (case map_of (zip ascii_lowercase ascii_uppercase) c of None \<Rightarrow> c | Some u \<Rightarrow> u)"

definition str_lower :: "string \<Rightarrow> string" where
  "str_lower s = map lower_chr s"

definition str_capitalize :: "string \<Rightarrow> string" where
  "str_capitalize s = (case s of [] \<Rightarrow> [] | c # cs \<Rightarrow> upper_chr c # map lower_chr cs)"

text \<open>\<^verbatim>\<open>str.isascii()\<close>: every character is below 128, that is, its top bit is clear.\<close>

definition isascii :: "string \<Rightarrow> bool" where
  "isascii s = list_all (\<lambda>c. \<not> digit7 c) s"

text \<open>\<^verbatim>\<open>v.lower()\<close> on a value: only a string has the method.\<close>

fun py_lower :: "pyval \<Rightarrow> py_error + string" where
  "py_lower (PStr s) = Inr (str_lower s)"
| "py_lower _ = Inl AttributeError"

section \<open>The evaluation stage: \<^verbatim>\<open>check_bgp\<close>\<close>

text \<open>
  What \<^verbatim>\<open>check_bgp\<close> writes to the log. \<^verbatim>\<open>tabulate\<close> and \<^verbatim>\<open>json.dumps\<close> are library
  formatters: an event holds what they are given (the headers and the rows, the failure
  dictionary), not the text they print.
\<close>

type_synonym failure_index = "pyval pydict pydict"

datatype log_event =
    LogBanner string
  | LogInfo string
  | LogTable "string list" "string list list"
  | LogErrorJson failure_index

text \<open>
  The result APIs of \<^verbatim>\<open>aetest\<close> (\<^verbatim>\<open>self.passed\<close>, \<^verbatim>\<open>self.failed\<close>) raise a signal that
  ends the running section at once with that result; \<^verbatim>\<open>goto\<close> names the sections the run
  continues with.
\<close>

datatype signal =
    AEtestPassedSignal string
  | AEtestFailedSignal string "string list"

text \<open>The local variables of \<^verbatim>\<open>check_bgp\<close> and the log it writes.\<close>

record check_state =
  failed_dict :: failure_index
  results_table :: "string list list"
  log :: "log_event list"

text \<open>Line 85: \<^verbatim>\<open>props.get('session_state', 'Unknown').lower()\<close>.\<close>

definition neighbor_state :: "pyval \<Rightarrow> py_error + string" where
  "neighbor_state props =
     (case dict_get props ''session_state'' (PStr ''Unknown'') of
        Inl e \<Rightarrow> Inl e
      | Inr v \<Rightarrow> py_lower v)"

text \<open>Line 86: \<^verbatim>\<open>'Passed' if state == 'established' else 'Failed'\<close>.\<close>

definition verdict :: "string \<Rightarrow> string" where
  "verdict state = (if state = ''established'' then ''Passed'' else ''Failed'')"

text \<open>Line 90: \<^verbatim>\<open>failed_dict.setdefault(device, {})[nbr] = props\<close>.\<close>

definition record_failure :: "failure_index \<Rightarrow> string \<Rightarrow> string \<Rightarrow> pyval \<Rightarrow> failure_index" where
  "record_failure fd device nbr props =
     (case dict_setdefault fd device [] of
        (fd', inner) \<Rightarrow> dict_setitem fd' device (dict_setitem inner nbr props))"

text \<open>Lines 84 to 93: the loop over the neighbours of one VRF.\<close>

fun nbr_loop :: "string \<Rightarrow> string \<Rightarrow> pyval pydict \<Rightarrow> check_state \<Rightarrow> py_error + check_state" where
  "nbr_loop device vrf_name [] st = Inr st"
| "nbr_loop device vrf_name ((nbr, props) # rest) st =
     (case neighbor_state props of
        Inl e \<Rightarrow> Inl e
      | Inr state \<Rightarrow>
          (let result = verdict state;
               fd = (if result = ''Failed''
                     then record_failure (failed_dict st) device nbr props
                     else failed_dict st);
               row = [vrf_name, nbr, str_capitalize state, result]
           in nbr_loop device vrf_name rest
                (st\<lparr>failed_dict := fd, results_table := results_table st @ [row]\<rparr>)))"

text \<open>Line 82: \<^verbatim>\<open>vrf_data.get('neighbor', {})\<close>, and the \<^verbatim>\<open>items()\<close> of line 84.\<close>

definition vrf_neighbors :: "pyval \<Rightarrow> py_error + pyval pydict" where
  "vrf_neighbors vrf_data =
     (case dict_get vrf_data ''neighbor'' (PDict []) of
        Inl e \<Rightarrow> Inl e
      | Inr neighbors \<Rightarrow> dict_items neighbors)"

text \<open>Lines 81 to 93: the loop over the VRFs of one device.\<close>

fun vrf_loop :: "string \<Rightarrow> pyval pydict \<Rightarrow> check_state \<Rightarrow> py_error + check_state" where
  "vrf_loop device [] st = Inr st"
| "vrf_loop device ((vrf_name, vrf_data) # rest) st =
     (case vrf_neighbors vrf_data of
        Inl e \<Rightarrow> Inl e
      | Inr neighbors \<Rightarrow>
          (case nbr_loop device vrf_name neighbors st of
             Inl e \<Rightarrow> Inl e
           | Inr st' \<Rightarrow> vrf_loop device rest st'))"

text \<open>
  Line 79: \<^verbatim>\<open>bgp_info.get('instance', {}).get('default', {}).get('vrf', {})\<close>, and the
  \<^verbatim>\<open>items()\<close> of line 81.
\<close>

definition device_vrfs :: "pyval \<Rightarrow> py_error + pyval pydict" where
  "device_vrfs bgp_info =
     (case dict_get bgp_info ''instance'' (PDict []) of
        Inl e \<Rightarrow> Inl e
      | Inr inst \<Rightarrow>
          (case dict_get inst ''default'' (PDict []) of
             Inl e \<Rightarrow> Inl e
           | Inr dflt \<Rightarrow>
               (case dict_get dflt ''vrf'' (PDict []) of
                  Inl e \<Rightarrow> Inl e
                | Inr vrfs_dict \<Rightarrow> dict_items vrfs_dict)))"

definition table_headers :: "string list" where
  "table_headers = [''VRF'', ''Peer'', ''State'', ''Result'']"

text \<open>
  Lines 78 to 97: the loop over the devices. \<^verbatim>\<open>results_table\<close> is created once, before
  this loop (line 76), and logged after each device (line 97).
\<close>

fun device_loop :: "pyval pydict \<Rightarrow> check_state \<Rightarrow> py_error + check_state" where
  "device_loop [] st = Inr st"
| "device_loop ((device, bgp_info) # rest) st =
     (case device_vrfs bgp_info of
        Inl e \<Rightarrow> Inl e
      | Inr vrfs \<Rightarrow>
          (case vrf_loop device vrfs st of
             Inl e \<Rightarrow> Inl e
           | Inr st' \<Rightarrow>
               device_loop rest
                 (st'\<lparr>log := log st' @
                    [LogInfo (''Device '' @ device @ '' BGP Neighbors:'' @ [CHR 0x0A]),
                     LogTable table_headers (results_table st')]\<rparr>)))"

text \<open>
  Lines 73 to 103. The result is the state at the end and the signal that ends the
  section, or the exception that the traversal raised.
\<close>

definition check_bgp :: "pyval pydict \<Rightarrow> py_error + (check_state \<times> signal)" where
  "check_bgp all_bgp_sessions =
     (case device_loop all_bgp_sessions
             \<lparr>failed_dict = [], results_table = [], log = []\<rparr> of
        Inl e \<Rightarrow> Inl e
      | Inr st \<Rightarrow>
          (if failed_dict st \<noteq> []
           then Inr (st\<lparr>log := log st @ [LogErrorJson (failed_dict st)]\<rparr>,
                     AEtestFailedSignal ''Some BGP neighbors are not established.'' [])
           else Inr (st, AEtestPassedSignal ''All BGP neighbors are established.'')))"


section \<open>The connection and collection stages\<close>

text \<open>
  A device as the script sees it: its name, what \<^verbatim>\<open>device.connect()\<close> does (it returns, or
  raises an exception whose text \<^verbatim>\<open>str(e)\<close> is given), and what the state-learning
  service leaves after \<^verbatim>\<open>bgp.learn()\<close> (the \<^verbatim>\<open>info\<close> attribute, or no such attribute).
\<close>

record device =
  name :: string
  connect_raises :: "string option"
  learnt_info :: "pyval option"

text \<open>\<^verbatim>\<open>self.parent.parameters\<close>: the two keys the script sets; \<open>None\<close> is a key not set.\<close>

record parameters =
  testbed :: "device list option"
  devices :: "device list option"

definition quoted :: "string \<Rightarrow> string" where
  "quoted s = [CHR 0x27] @ s @ [CHR 0x27]"

text \<open>
  Lines 37 to 43: the loop of \<^verbatim>\<open>connect\<close>. \<^verbatim>\<open>self.failed\<close> is called in the handler of
  line 42; the signal it raises leaves the loop and the subsection.
\<close>

fun connect_loop ::
  "device list \<Rightarrow> device list \<Rightarrow> log_event list \<Rightarrow> device list \<times> log_event list \<times> signal option"
where
  "connect_loop [] device_list lg = (device_list, lg, None)"
| "connect_loop (d # rest) device_list lg =
     (let lg' = lg @ [LogBanner (''Connecting to device '' @ quoted (name d))] in
      case connect_raises d of
        None \<Rightarrow> connect_loop rest (device_list @ [d]) lg'
      | Some e \<Rightarrow>
          (device_list, lg',
           Some (AEtestFailedSignal
                  (''Failed to establish connection to '' @ quoted (name d) @ '': '' @ e) [])))"

text \<open>
  Lines 31 to 46. The result is the parameters afterwards, the log, and the signal that
  ended the subsection, if one did. Line 46 runs only when the loop ran to its end.
\<close>

definition connect ::
  "device list \<Rightarrow> parameters \<Rightarrow> parameters \<times> log_event list \<times> signal option" where
  "connect genie_testbed params =
     (let params' = params\<lparr>testbed := Some genie_testbed\<rparr> in
      case connect_loop genie_testbed [] [] of
        (device_list, lg, None) \<Rightarrow> (params'\<lparr>devices := Some device_list\<rparr>, lg, None)
      | (device_list, lg, Some sig) \<Rightarrow> (params', lg, Some sig))"

text \<open>Lines 61 to 70: the loop of \<^verbatim>\<open>learn_bgp\<close>.\<close>

fun learn_loop ::
  "device list \<Rightarrow> pyval pydict \<Rightarrow> log_event list \<Rightarrow> pyval pydict \<times> log_event list \<times> signal option"
where
  "learn_loop [] sessions lg = (sessions, lg, None)"
| "learn_loop (d # rest) sessions lg =
     (let lg' = lg @ [LogBanner (''Gathering BGP Information from '' @ name d)] in
      case learnt_info d of
        Some info \<Rightarrow> learn_loop rest (dict_setitem sessions (name d) info) lg'
      | None \<Rightarrow>
          (sessions, lg',
           Some (AEtestFailedSignal
                  (''Failed to learn BGP info from device '' @ name d) [''common_cleanup''])))"

text \<open>
  Lines 57 to 70. The result is \<^verbatim>\<open>self.all_bgp_sessions\<close>, the log and the signal that ended
  the section, if one did; \<^verbatim>\<open>parameters['devices']\<close> raises when the key was never set.
\<close>

definition learn_bgp ::
  "parameters \<Rightarrow> py_error + (pyval pydict \<times> log_event list \<times> signal option)" where
  "learn_bgp params =
     (case devices params of
        None \<Rightarrow> Inl KeyError
      | Some ds \<Rightarrow> Inr (learn_loop ds [] []))"

text \<open>
  The testcase \<^verbatim>\<open>BGPNeighborsEstablished\<close>: \<^verbatim>\<open>aetest\<close> runs its test sections in the order
  they are written. A section that ends with a \<^verbatim>\<open>goto\<close> sends the run to the section named
  there, so the sections in between do not run. An exception in \<^verbatim>\<open>learn_bgp\<close> ends that
  section only; line 59 has run by then.
\<close>

datatype 'a test_section = NotRun | Ran 'a

definition goto_of :: "signal option \<Rightarrow> string list" where
  "goto_of sig = (case sig of Some (AEtestFailedSignal reason goto) \<Rightarrow> goto | _ \<Rightarrow> [])"

definition BGPNeighborsEstablished ::
  "parameters \<Rightarrow>
     (py_error + (pyval pydict \<times> log_event list \<times> signal option)) \<times>
     (py_error + (check_state \<times> signal)) test_section" where
  "BGPNeighborsEstablished params =
     (case learn_bgp params of
        Inl e \<Rightarrow> (Inl e, Ran (check_bgp []))
      | Inr (sessions, lg, sig) \<Rightarrow>
          (Inr (sessions, lg, sig),
           if goto_of sig = [] then Ran (check_bgp sessions) else NotRun))"

section \<open>What a snapshot holds\<close>

text \<open>
  The neighbours of a snapshot in the order \<^verbatim>\<open>check_bgp\<close> visits them, as triples of VRF
  name, neighbour address and attributes, and what the loop body computes for one of
  them. Where a lookup raises, the list is empty and the state is the empty string: the
  theorems use these functions only where \<^verbatim>\<open>check_bgp\<close> returned, so no lookup raised.
\<close>

type_synonym neighbor = "string \<times> string \<times> pyval"

definition state_of :: "pyval \<Rightarrow> string" where
  "state_of props = (case neighbor_state props of Inl e \<Rightarrow> [] | Inr s \<Rightarrow> s)"

definition neighbor_row :: "neighbor \<Rightarrow> string list" where
  "neighbor_row n =
     (case n of (vrf_name, nbr, props) \<Rightarrow>
        [vrf_name, nbr, str_capitalize (state_of props), verdict (state_of props)])"

definition neighbor_failed :: "neighbor \<Rightarrow> bool" where
  "neighbor_failed n = (case n of (vrf_name, nbr, props) \<Rightarrow> verdict (state_of props) = ''Failed'')"

definition vrf_neighbors_list :: "string \<times> pyval \<Rightarrow> neighbor list" where
  "vrf_neighbors_list v =
     (case v of (vrf_name, vrf_data) \<Rightarrow>
        (case vrf_neighbors vrf_data of
           Inl e \<Rightarrow> []
         | Inr ns \<Rightarrow> map (\<lambda>np. (vrf_name, fst np, snd np)) ns))"

definition device_neighbors :: "pyval \<Rightarrow> neighbor list" where
  "device_neighbors bgp_info =
     (case device_vrfs bgp_info of
        Inl e \<Rightarrow> []
      | Inr vrfs \<Rightarrow> concat (map vrf_neighbors_list vrfs))"

text \<open>A snapshot that \<^verbatim>\<open>check_bgp\<close> walks without an exception.\<close>

definition snapshot_ok :: "pyval \<Rightarrow> bool" where
  "snapshot_ok bgp_info =
     (case device_vrfs bgp_info of
        Inl e \<Rightarrow> False
      | Inr vrfs \<Rightarrow>
          list_all (\<lambda>v. case vrf_neighbors (snd v) of
                           Inl e \<Rightarrow> False
                         | Inr ns \<Rightarrow> list_all (\<lambda>np. isl (neighbor_state (snd np)) = False) ns) vrfs)"

text \<open>The rows of all devices, and the failures of a list of neighbours recorded in order.\<close>

definition device_rows :: "pyval pydict \<Rightarrow> string list list" where
  "device_rows sessions = concat (map (\<lambda>s. map neighbor_row (device_neighbors (snd s))) sessions)"

definition record_failures :: "failure_index \<Rightarrow> string \<Rightarrow> neighbor list \<Rightarrow> failure_index" where
  "record_failures fd device ns =
     foldl (\<lambda>fd n. case n of (vrf_name, nbr, props) \<Rightarrow> record_failure fd device nbr props) fd
       (filter neighbor_failed ns)"

definition all_failures :: "failure_index \<Rightarrow> pyval pydict \<Rightarrow> failure_index" where
  "all_failures fd sessions =
     foldl (\<lambda>fd s. record_failures fd (fst s) (device_neighbors (snd s))) fd sessions"

definition inner_dict :: "failure_index \<Rightarrow> string \<Rightarrow> pyval pydict" where
  "inner_dict fd device = (case map_of fd device of None \<Rightarrow> [] | Some i \<Rightarrow> i)"

definition setitems :: "pyval pydict \<Rightarrow> neighbor list \<Rightarrow> pyval pydict" where
  "setitems e ns = foldl (\<lambda>e n. case n of (vrf_name, nbr, props) \<Rightarrow> dict_setitem e nbr props) e ns"

text \<open>
  The log of the device loop, started with the table \<open>rt\<close>: the table logged after a
  device holds the rows of every device so far.
\<close>

fun device_logs :: "string list list \<Rightarrow> pyval pydict \<Rightarrow> log_event list" where
  "device_logs rt [] = []"
| "device_logs rt ((device, bgp_info) # rest) =
     [LogInfo (''Device '' @ device @ '' BGP Neighbors:'' @ [CHR 0x0A]),
      LogTable table_headers (rt @ map neighbor_row (device_neighbors bgp_info))]
     @ device_logs (rt @ map neighbor_row (device_neighbors bgp_info)) rest"

definition is_table :: "log_event \<Rightarrow> bool" where
  "is_table e = (case e of LogTable h r \<Rightarrow> True | _ \<Rightarrow> False)"

text \<open>A string that differs from \<open>t\<close> (in lower case) only in the case of its letters.\<close>

definition case_variant :: "string \<Rightarrow> string \<Rightarrow> bool" where
  "case_variant s t = list_all2 (\<lambda>c l. c = l \<or> c = upper_chr l) s t"

text \<open>
  A snapshot (a dictionary) in which \<^verbatim>\<open>instance\<close>, the \<^verbatim>\<open>default\<close> instance or its \<^verbatim>\<open>vrf\<close>
  is absent, and the data of a VRF in which \<^verbatim>\<open>neighbor\<close> is absent.
\<close>

definition vrf_level_missing :: "pyval \<Rightarrow> bool" where
  "vrf_level_missing bgp_info =
     (case bgp_info of
        PDict d \<Rightarrow>
          (case map_of d ''instance'' of
             None \<Rightarrow> True
           | Some (PDict i) \<Rightarrow>
               (case map_of i ''default'' of
                  None \<Rightarrow> True
                | Some (PDict df) \<Rightarrow> map_of df ''vrf'' = None
                | Some _ \<Rightarrow> False)
           | Some _ \<Rightarrow> False)
      | _ \<Rightarrow> False)"

definition neighbor_level_missing :: "pyval \<Rightarrow> bool" where
  "neighbor_level_missing vrf_data =
     (case vrf_data of PDict v \<Rightarrow> map_of v ''neighbor'' = None | _ \<Rightarrow> False)"

text \<open>
  What the collection loop has stored after the devices \<open>ds\<close>, and what the connection
  loop and the collection loop have logged after them.
\<close>

definition collected :: "pyval pydict \<Rightarrow> device list \<Rightarrow> pyval pydict" where
  "collected sessions ds =
     foldl (\<lambda>s d. case learnt_info d of None \<Rightarrow> s | Some info \<Rightarrow> dict_setitem s (name d) info)
       sessions ds"

definition connecting :: "device list \<Rightarrow> log_event list" where
  "connecting ds = map (\<lambda>d. LogBanner (''Connecting to device '' @ quoted (name d))) ds"

definition gathering :: "device list \<Rightarrow> log_event list" where
  "gathering ds = map (\<lambda>d. LogBanner (''Gathering BGP Information from '' @ name d)) ds"

subsection \<open>Example inputs\<close>

text \<open>A snapshot with the given VRFs, each a list of neighbours with their session state.\<close>

definition bgp_snapshot :: "(string \<times> (string \<times> string) list) list \<Rightarrow> pyval" where
  "bgp_snapshot vrfs =
     PDict [(''instance'', PDict [(''default'', PDict [(''vrf'',
       PDict (map (\<lambda>v. (fst v, PDict [(''neighbor'',
         PDict (map (\<lambda>n. (fst n, PDict [(''session_state'', PStr (snd n))])) (snd v)))])) vrfs))])])]"

definition two_devices :: "pyval pydict" where
  "two_devices =
     [(''R1'', bgp_snapshot [(''default'', [(''10.0.0.1'', ''Established'')])]),
      (''R2'', bgp_snapshot [(''default'', [(''10.0.0.2'', ''Idle'')])])]"

definition two_vrfs :: "pyval pydict" where
  "two_vrfs =
     [(''R1'', bgp_snapshot
         [(''default'', [(''10.0.0.1'', ''Idle''), (''10.0.0.2'', ''Established'')]),
          (''blue'', [(''10.0.0.1'', ''Active'')])])]"

definition R1 :: device where
  "R1 = \<lparr>name = ''R1'', connect_raises = None,
         learnt_info = Some (bgp_snapshot [(''default'', [(''10.0.0.1'', ''Established'')])])\<rparr>"

definition R2 :: device where
  "R2 = \<lparr>name = ''R2'', connect_raises = Some ''timed out'', learnt_info = None\<rparr>"

text \<open>What \<^verbatim>\<open>check_bgp\<close> returns on the examples, and snapshots that hold no neighbour.\<close>

definition two_devices_result :: "check_state \<times> signal" where
  "two_devices_result =
     (\<lparr>failed_dict = [(''R2'', [(''10.0.0.2'', PDict [(''session_state'', PStr ''Idle'')])])],
       results_table =
         [[''default'', ''10.0.0.1'', ''Established'', ''Passed''],
          [''default'', ''10.0.0.2'', ''Idle'', ''Failed'']],
       log =
         [LogInfo (''Device R1 BGP Neighbors:'' @ [CHR 0x0A]),
          LogTable table_headers
            [[''default'', ''10.0.0.1'', ''Established'', ''Passed'']],
          LogInfo (''Device R2 BGP Neighbors:'' @ [CHR 0x0A]),
          LogTable table_headers
            [[''default'', ''10.0.0.1'', ''Established'', ''Passed''],
             [''default'', ''10.0.0.2'', ''Idle'', ''Failed'']],
          LogErrorJson
            [(''R2'', [(''10.0.0.2'', PDict [(''session_state'', PStr ''Idle'')])])]]\<rparr>,
      AEtestFailedSignal ''Some BGP neighbors are not established.'' [])"

definition two_vrfs_result :: "check_state \<times> signal" where
  "two_vrfs_result =
     (\<lparr>failed_dict = [(''R1'', [(''10.0.0.1'', PDict [(''session_state'', PStr ''Active'')])])],
       results_table =
         [[''default'', ''10.0.0.1'', ''Idle'', ''Failed''],
          [''default'', ''10.0.0.2'', ''Established'', ''Passed''],
          [''blue'', ''10.0.0.1'', ''Active'', ''Failed'']],
       log =
         [LogInfo (''Device R1 BGP Neighbors:'' @ [CHR 0x0A]),
          LogTable table_headers
            [[''default'', ''10.0.0.1'', ''Idle'', ''Failed''],
             [''default'', ''10.0.0.2'', ''Established'', ''Passed''],
             [''blue'', ''10.0.0.1'', ''Active'', ''Failed'']],
          LogErrorJson
            [(''R1'', [(''10.0.0.1'', PDict [(''session_state'', PStr ''Active'')])])]]\<rparr>,
      AEtestFailedSignal ''Some BGP neighbors are not established.'' [])"

definition no_neighbors :: "pyval pydict" where
  "no_neighbors =
     [(''R1'', PDict []),
      (''R2'', PDict [(''instance'', PDict [])]),
      (''R3'', PDict [(''instance'', PDict [(''default'', PDict [(''bgp_id'', PInt 65000)])])])]"

section \<open>\<^verbatim>\<open>check_bgp\<close> on a store of objects\<close>

text \<open>
  Python variables hold references. To say what \<^verbatim>\<open>check_bgp\<close> does to the objects it is
  given, this second model keeps the dictionaries in a store: a dictionary is an object at
  an address (its index in the store), its values are immutable values or references to
  other objects, and a new object is put at the end of the store. Strings, numbers and
  lists are values (\<^verbatim>\<open>check_bgp\<close> never looks into a list of a snapshot). The table and
  its rows are created by \<^verbatim>\<open>check_bgp\<close> and hold strings only; they stay values of the
  model. The log calls read objects and write text; they are left out here.
\<close>

type_synonym addr = nat

datatype hval = HNone | HBool bool | HInt int | HStr string | HList "hval list" | HRef addr

type_synonym store = "hval pydict list"

text \<open>
  The literal \<^verbatim>\<open>{}\<close>, and the dictionary that a value refers to, if it refers to one.
\<close>

definition store_new :: "store \<Rightarrow> store \<times> hval" where
  "store_new h = (h @ [[]], HRef (length h))"

definition store_dict :: "store \<Rightarrow> hval \<Rightarrow> hval pydict option" where
  "store_dict h v =
     (case v of HRef a \<Rightarrow> (if a < length h then Some (h ! a) else None) | _ \<Rightarrow> None)"

text \<open>
  \<^verbatim>\<open>get\<close>, \<^verbatim>\<open>items\<close>, \<^verbatim>\<open>lower\<close>, \<^verbatim>\<open>setdefault\<close> and \<^verbatim>\<open>x[k] = v\<close> on the store. The last two write
  into the object itself.
\<close>

definition store_get :: "store \<Rightarrow> hval \<Rightarrow> string \<Rightarrow> hval \<Rightarrow> py_error + hval" where
  "store_get h v k dflt =
     (case store_dict h v of
        None \<Rightarrow> Inl AttributeError
      | Some d \<Rightarrow> Inr (case map_of d k of None \<Rightarrow> dflt | Some x \<Rightarrow> x))"

definition store_items :: "store \<Rightarrow> hval \<Rightarrow> py_error + hval pydict" where
  "store_items h v = (case store_dict h v of None \<Rightarrow> Inl AttributeError | Some d \<Rightarrow> Inr d)"

definition store_lower :: "hval \<Rightarrow> py_error + string" where
  "store_lower v = (case v of HStr s \<Rightarrow> Inr (str_lower s) | _ \<Rightarrow> Inl AttributeError)"

definition store_setdefault :: "store \<Rightarrow> hval \<Rightarrow> string \<Rightarrow> hval \<Rightarrow> py_error + (store \<times> hval)" where
  "store_setdefault h x k v =
     (case x of
        HRef a \<Rightarrow>
          (if a < length h
           then (case map_of (h ! a) k of
                   Some w \<Rightarrow> Inr (h, w)
                 | None \<Rightarrow> Inr (h[a := h ! a @ [(k, v)]], v))
           else Inl AttributeError)
      | _ \<Rightarrow> Inl AttributeError)"

definition store_setitem :: "store \<Rightarrow> hval \<Rightarrow> string \<Rightarrow> hval \<Rightarrow> py_error + store" where
  "store_setitem h x k v =
     (case x of
        HRef a \<Rightarrow>
          (if a < length h then Inr (h[a := dict_setitem (h ! a) k v]) else Inl TypeError)
      | _ \<Rightarrow> Inl TypeError)"

text \<open>
  Lines 85 and 90. In line 90 the literal \<^verbatim>\<open>{}\<close> is evaluated before \<^verbatim>\<open>setdefault\<close> is
  called, and the attributes are stored as the reference \<open>props\<close> itself.
\<close>

definition neighbor_state_store :: "store \<Rightarrow> hval \<Rightarrow> py_error + string" where
  "neighbor_state_store h props =
     (case store_get h props ''session_state'' (HStr ''Unknown'') of
        Inl e \<Rightarrow> Inl e
      | Inr v \<Rightarrow> store_lower v)"

definition record_failure_store ::
  "store \<Rightarrow> hval \<Rightarrow> string \<Rightarrow> string \<Rightarrow> hval \<Rightarrow> store \<times> (py_error + unit)" where
  "record_failure_store h fd device nbr props =
     (case store_new h of
        (h1, e) \<Rightarrow>
          (case store_setdefault h1 fd device e of
             Inl er \<Rightarrow> (h1, Inl er)
           | Inr (h2, inner) \<Rightarrow>
               (case store_setitem h2 inner nbr props of
                  Inl er \<Rightarrow> (h2, Inl er)
                | Inr h3 \<Rightarrow> (h3, Inr ()))))"

text \<open>
  The three loops and the lookups of lines 79 and 82, each default \<^verbatim>\<open>{}\<close> a new object.
  \<open>fd\<close> is the reference held by \<^verbatim>\<open>failed_dict\<close>, \<open>rt\<close> the table.
\<close>

fun nbr_loop_store ::
  "string \<Rightarrow> string \<Rightarrow> hval pydict \<Rightarrow> hval \<Rightarrow> string list list \<Rightarrow> store \<Rightarrow>
     store \<times> (py_error + string list list)" where
  "nbr_loop_store device vrf_name [] fd rt h = (h, Inr rt)"
| "nbr_loop_store device vrf_name ((nbr, props) # rest) fd rt h =
     (case neighbor_state_store h props of
        Inl e \<Rightarrow> (h, Inl e)
      | Inr state \<Rightarrow>
          (let result = verdict state;
               row = [vrf_name, nbr, str_capitalize state, result]
           in case (if result = ''Failed'' then record_failure_store h fd device nbr props
                    else (h, Inr ())) of
                (h', Inl e) \<Rightarrow> (h', Inl e)
              | (h', Inr u) \<Rightarrow> nbr_loop_store device vrf_name rest fd (rt @ [row]) h'))"

definition vrf_neighbors_store :: "store \<Rightarrow> hval \<Rightarrow> store \<times> (py_error + hval pydict)" where
  "vrf_neighbors_store h vrf_data =
     (case store_new h of
        (h1, e) \<Rightarrow>
          (h1, case store_get h1 vrf_data ''neighbor'' e of
                 Inl er \<Rightarrow> Inl er
               | Inr neighbors \<Rightarrow> store_items h1 neighbors))"

fun vrf_loop_store ::
  "string \<Rightarrow> hval pydict \<Rightarrow> hval \<Rightarrow> string list list \<Rightarrow> store \<Rightarrow>
     store \<times> (py_error + string list list)" where
  "vrf_loop_store device [] fd rt h = (h, Inr rt)"
| "vrf_loop_store device ((vrf_name, vrf_data) # rest) fd rt h =
     (case vrf_neighbors_store h vrf_data of
        (h1, Inl e) \<Rightarrow> (h1, Inl e)
      | (h1, Inr neighbors) \<Rightarrow>
          (case nbr_loop_store device vrf_name neighbors fd rt h1 of
             (h2, Inl e) \<Rightarrow> (h2, Inl e)
           | (h2, Inr rt') \<Rightarrow> vrf_loop_store device rest fd rt' h2))"

definition device_vrfs_store :: "store \<Rightarrow> hval \<Rightarrow> store \<times> (py_error + hval pydict)" where
  "device_vrfs_store h bgp_info =
     (case store_new h of
        (h1, e1) \<Rightarrow>
          (case store_get h1 bgp_info ''instance'' e1 of
             Inl er \<Rightarrow> (h1, Inl er)
           | Inr inst \<Rightarrow>
               (case store_new h1 of
                  (h2, e2) \<Rightarrow>
                    (case store_get h2 inst ''default'' e2 of
                       Inl er \<Rightarrow> (h2, Inl er)
                     | Inr dflt \<Rightarrow>
                         (case store_new h2 of
                            (h3, e3) \<Rightarrow>
                              (h3, case store_get h3 dflt ''vrf'' e3 of
                                     Inl er \<Rightarrow> Inl er
                                   | Inr vrfs_dict \<Rightarrow> store_items h3 vrfs_dict))))))"

fun device_loop_store ::
  "hval pydict \<Rightarrow> hval \<Rightarrow> string list list \<Rightarrow> store \<Rightarrow> store \<times> (py_error + string list list)"
where
  "device_loop_store [] fd rt h = (h, Inr rt)"
| "device_loop_store ((device, bgp_info) # rest) fd rt h =
     (case device_vrfs_store h bgp_info of
        (h1, Inl e) \<Rightarrow> (h1, Inl e)
      | (h1, Inr vrfs) \<Rightarrow>
          (case vrf_loop_store device vrfs fd rt h1 of
             (h2, Inl e) \<Rightarrow> (h2, Inl e)
           | (h2, Inr rt') \<Rightarrow> device_loop_store rest fd rt' h2))"

text \<open>
  Lines 73 to 103. The result is the store afterwards and, when nothing was raised, the
  reference to \<^verbatim>\<open>failed_dict\<close>, the table and the signal.
\<close>

definition check_bgp_store ::
  "store \<Rightarrow> hval \<Rightarrow> store \<times> (py_error + (hval \<times> string list list \<times> signal))" where
  "check_bgp_store h all_bgp_sessions =
     (case store_new h of
        (h1, fd) \<Rightarrow>
          (case store_items h1 all_bgp_sessions of
             Inl e \<Rightarrow> (h1, Inl e)
           | Inr sessions \<Rightarrow>
               (case device_loop_store sessions fd [] h1 of
                  (h2, Inl e) \<Rightarrow> (h2, Inl e)
                | (h2, Inr rt) \<Rightarrow>
                    (h2, Inr (fd, rt,
                       if store_dict h2 fd \<noteq> Some []
                       then AEtestFailedSignal ''Some BGP neighbors are not established.'' []
                       else AEtestPassedSignal ''All BGP neighbors are established.'')))))"

text \<open>
  A value of the store denotes a Python value: a reference denotes the dictionary whose
  items denote the items of the object it points to.
\<close>

inductive repr :: "store \<Rightarrow> hval \<Rightarrow> pyval \<Rightarrow> bool"
  and repr_list :: "store \<Rightarrow> hval list \<Rightarrow> pyval list \<Rightarrow> bool"
  and repr_items :: "store \<Rightarrow> hval pydict \<Rightarrow> pyval pydict \<Rightarrow> bool"
  for h :: store
where
  repr_None: "repr h HNone PNone"
| repr_Bool: "repr h (HBool b) (PBool b)"
| repr_Int: "repr h (HInt i) (PInt i)"
| repr_Str: "repr h (HStr s) (PStr s)"
| repr_List: "repr_list h vs ps \<Longrightarrow> repr h (HList vs) (PList ps)"
| repr_Dict: "a < length h \<Longrightarrow> repr_items h (h ! a) d \<Longrightarrow> repr h (HRef a) (PDict d)"
| repr_list_Nil: "repr_list h [] []"
| repr_list_Cons: "repr h v p \<Longrightarrow> repr_list h vs ps \<Longrightarrow> repr_list h (v # vs) (p # ps)"
| repr_items_Nil: "repr_items h [] []"
| repr_items_Cons:
    "repr h v p \<Longrightarrow> repr_items h d d' \<Longrightarrow> repr_items h ((k, v) # d) ((k, p) # d')"

text \<open>
  \<open>extends h0 h\<close>: the store \<open>h\<close> holds every object of \<open>h0\<close> unchanged, and maybe more.
  \<open>index_fresh n h fd\<close>: the failure dictionary and the dictionaries it refers to are
  objects created after the first \<open>n\<close>.
\<close>

definition extends :: "store \<Rightarrow> store \<Rightarrow> bool" where
  "extends h0 h = (take (length h0) h = h0)"

definition index_fresh :: "nat \<Rightarrow> store \<Rightarrow> hval \<Rightarrow> bool" where
  "index_fresh n h fd =
     (case fd of
        HRef a \<Rightarrow>
          n \<le> a \<and> a < length h \<and>
          list_all (\<lambda>kv. case snd kv of HRef b \<Rightarrow> a < b \<and> b < length h | _ \<Rightarrow> False) (h ! a)
      | _ \<Rightarrow> False)"

text \<open>
  What a value met during the traversal denotes: a value of the store \<open>h0\<close> that
  \<^verbatim>\<open>check_bgp\<close> started from, or the empty dictionary of a default \<^verbatim>\<open>{}\<close>.
\<close>

definition vrel :: "store \<Rightarrow> store \<Rightarrow> hval \<Rightarrow> pyval \<Rightarrow> bool" where
  "vrel h0 h v p =
     (repr h0 v p \<or>
      (\<exists>a. v = HRef a \<and> length h0 \<le> a \<and> a < length h \<and> h ! a = [] \<and> p = PDict []))"

text \<open>
  The failure dictionary at \<open>fd\<close> holds the failures \<open>F\<close> of the first model: the same keys
  in the same order, each with a reference to a dictionary of its own, created by
  \<^verbatim>\<open>check_bgp\<close>, whose items denote the attributes recorded in \<open>F\<close>. \<open>index_value\<close> is \<open>F\<close> as
  a Python value.
\<close>

definition entry_repr :: "store \<Rightarrow> store \<Rightarrow> addr \<Rightarrow> hval \<Rightarrow> pyval pydict \<Rightarrow> bool" where
  "entry_repr h0 h a v ip =
     (\<exists>b. v = HRef b \<and> a < b \<and> b < length h \<and> repr_items h0 (h ! b) ip)"

definition index_repr :: "store \<Rightarrow> store \<Rightarrow> hval \<Rightarrow> failure_index \<Rightarrow> bool" where
  "index_repr h0 h fd F =
     (\<exists>a. fd = HRef a \<and> length h0 \<le> a \<and> a < length h \<and> distinct (map snd (h ! a)) \<and>
          list_all2 (\<lambda>kv ke. fst kv = fst ke \<and> entry_repr h0 h a (snd kv) (snd ke)) (h ! a) F)"

definition index_value :: "failure_index \<Rightarrow> pyval" where
  "index_value F = PDict (map (\<lambda>e. (fst e, PDict (snd e))) F)"

text \<open>
  An example: the store that holds the snapshots of \<open>two_devices\<close>, the mapping at
  address 0, and the store after \<^verbatim>\<open>check_bgp\<close>.
\<close>

definition example_store :: store where
  "example_store =
     [[(''R1'', HRef 1), (''R2'', HRef 7)],
      [(''instance'', HRef 2)], [(''default'', HRef 3)], [(''vrf'', HRef 4)],
      [(''default'', HRef 5)], [(''neighbor'', HRef 6)],
      [(''10.0.0.1'', HRef 13)],
      [(''instance'', HRef 8)], [(''default'', HRef 9)], [(''vrf'', HRef 10)],
      [(''default'', HRef 11)], [(''neighbor'', HRef 12)],
      [(''10.0.0.2'', HRef 14)],
      [(''session_state'', HStr ''Established'')],
      [(''session_state'', HStr ''Idle'')]]"

definition example_store_after :: store where
  "example_store_after =
     example_store @
     [[(''R2'', HRef 24)], [], [], [], [], [], [], [], [], [(''10.0.0.2'', HRef 14)]]"

definition example_rows :: "string list list" where
  "example_rows =
     [[''default'', ''10.0.0.1'', ''Established'', ''Passed''],
      [''default'', ''10.0.0.2'', ''Idle'', ''Failed'']]"

section \<open>Dictionaries\<close>

lemma map_of_dict_setitem: "map_of (dict_setitem d k v) = (map_of d)(k \<mapsto> v)"
  by (induction d) auto

lemma keys_dict_setitem: "fst ` set (dict_setitem d k v) = insert k (fst ` set d)"
proof -
  have "dom (map_of (dict_setitem d k v)) = insert k (dom (map_of d))"
    by (simp add: map_of_dict_setitem)
  then show ?thesis
    by (simp add: dom_map_of_conv_image_fst)
qed

lemma distinct_dict_setitem:
  "distinct (map fst d) \<Longrightarrow> distinct (map fst (dict_setitem d k v))"
  by (induction d) (auto simp: keys_dict_setitem)

lemma distinct_filter_key:
  "distinct (map fst e) \<Longrightarrow> map_of e k = Some v \<Longrightarrow> filter (\<lambda>x. fst x = k) e = [(k, v)]"
proof (induction e)
  case Nil
  then show ?case by simp
next
  case (Cons x e)
  show ?case
  proof (cases "fst x = k")
    case True
    with Cons.prems have "k \<notin> fst ` set e" by auto
    then have "filter (\<lambda>x. fst x = k) e = []"
      by (auto simp: filter_empty_conv)
    with True Cons.prems show ?thesis
      by (cases x) auto
  next
    case False
    with Cons show ?thesis by (cases x) auto
  qed
qed

section \<open>The loops of \<^verbatim>\<open>check_bgp\<close> as folds\<close>

text \<open>
  Where a loop returns, its state is the one it started from with the rows of the
  neighbours appended and their failures recorded, in the order of iteration.
\<close>

lemma record_failures_Nil: "record_failures fd device [] = fd"
  by (simp add: record_failures_def)

lemma record_failures_Cons:
  "record_failures fd device ((vrf_name, nbr, props) # ns) =
     record_failures
       (if neighbor_failed (vrf_name, nbr, props) then record_failure fd device nbr props else fd)
       device ns"
  by (simp add: record_failures_def)

lemma record_failures_append:
  "record_failures fd device (xs @ ys) = record_failures (record_failures fd device xs) device ys"
  by (simp add: record_failures_def)

lemma nbr_loop_Inr:
  "nbr_loop device vrf_name ns st = Inr st' \<Longrightarrow>
     st' = st\<lparr>failed_dict :=
                record_failures (failed_dict st) device (map (\<lambda>np. (vrf_name, fst np, snd np)) ns),
              results_table :=
                results_table st @ map neighbor_row (map (\<lambda>np. (vrf_name, fst np, snd np)) ns)\<rparr>"
proof (induction ns arbitrary: st)
  case Nil
  then show ?case by (simp add: record_failures_Nil)
next
  case (Cons np ns)
  obtain nbr props where np: "np = (nbr, props)" by (cases np)
  from Cons.prems np obtain state where s: "neighbor_state props = Inr state"
    by (auto split: sum.splits)
  define st1 where "st1 = st\<lparr>failed_dict :=
      (if verdict state = ''Failed'' then record_failure (failed_dict st) device nbr props
       else failed_dict st),
      results_table := results_table st @ [[vrf_name, nbr, str_capitalize state, verdict state]]\<rparr>"
  let ?T = "map (\<lambda>np. (vrf_name, fst np, snd np)) ns"
  from Cons.prems np s have "nbr_loop device vrf_name ns st1 = Inr st'"
    by (simp add: Let_def st1_def)
  from Cons.IH [OF this] have "st' = st1\<lparr>failed_dict := record_failures (failed_dict st1) device ?T,
      results_table := results_table st1 @ map neighbor_row ?T\<rparr>" .
  moreover have "state_of props = state"
    by (simp add: state_of_def s)
  ultimately show ?case
    by (simp add: st1_def np record_failures_Cons neighbor_row_def neighbor_failed_def)
qed

lemma vrf_loop_Inr:
  "vrf_loop device vrfs st = Inr st' \<Longrightarrow>
     st' = st\<lparr>failed_dict :=
                record_failures (failed_dict st) device (concat (map vrf_neighbors_list vrfs)),
              results_table :=
                results_table st @ map neighbor_row (concat (map vrf_neighbors_list vrfs))\<rparr>"
proof (induction vrfs arbitrary: st)
  case Nil
  then show ?case by (simp add: record_failures_Nil)
next
  case (Cons v vrfs)
  obtain vrf_name vrf_data where v: "v = (vrf_name, vrf_data)" by (cases v)
  from Cons.prems v obtain ns where ns: "vrf_neighbors vrf_data = Inr ns"
    by (auto split: sum.splits)
  from Cons.prems v ns obtain st1 where
    st1: "nbr_loop device vrf_name ns st = Inr st1" and rest: "vrf_loop device vrfs st1 = Inr st'"
    by (auto split: sum.splits)
  have l: "vrf_neighbors_list v = map (\<lambda>np. (vrf_name, fst np, snd np)) ns"
    by (simp add: vrf_neighbors_list_def v ns)
  show ?case
    using nbr_loop_Inr [OF st1] Cons.IH [OF rest]
    by (simp add: l record_failures_append)
qed

lemma device_loop_Inr:
  "device_loop sessions st = Inr st' \<Longrightarrow>
     st' = \<lparr>failed_dict = all_failures (failed_dict st) sessions,
            results_table = results_table st @ device_rows sessions,
            log = log st @ device_logs (results_table st) sessions\<rparr>"
proof (induction sessions arbitrary: st)
  case Nil
  then show ?case by (simp add: all_failures_def device_rows_def)
next
  case (Cons s sessions)
  obtain device bgp_info where s: "s = (device, bgp_info)" by (cases s)
  from Cons.prems s obtain vrfs where vrfs: "device_vrfs bgp_info = Inr vrfs"
    by (auto split: sum.splits)
  from Cons.prems s vrfs obtain st1 where
    st1: "vrf_loop device vrfs st = Inr st1" and
    rest: "device_loop sessions
             (st1\<lparr>log := log st1 @
                [LogInfo (''Device '' @ device @ '' BGP Neighbors:'' @ [CHR 0x0A]),
                 LogTable table_headers (results_table st1)]\<rparr>) = Inr st'"
    by (auto split: sum.splits)
  have l: "device_neighbors bgp_info = concat (map vrf_neighbors_list vrfs)"
    by (simp add: device_neighbors_def vrfs)
  show ?case
    using vrf_loop_Inr [OF st1] Cons.IH [OF rest]
    by (simp add: l s all_failures_def device_rows_def)
qed

lemma check_bgp_Inr:
  "check_bgp sessions = Inr (st, sig) \<Longrightarrow>
     failed_dict st = all_failures [] sessions \<and>
     results_table st = device_rows sessions \<and>
     log st = device_logs [] sessions @
       (if all_failures [] sessions = [] then [] else [LogErrorJson (all_failures [] sessions)]) \<and>
     sig = (if all_failures [] sessions = []
            then AEtestPassedSignal ''All BGP neighbors are established.''
            else AEtestFailedSignal ''Some BGP neighbors are not established.'' [])"
  unfolding check_bgp_def
  by (auto split: sum.splits if_splits dest!: device_loop_Inr)

text \<open>The loops return on every snapshot whose levels are dictionaries and whose states are strings.\<close>

lemma nbr_loop_total:
  "list_all (\<lambda>np. isl (neighbor_state (snd np)) = False) ns \<Longrightarrow>
     \<exists>st'. nbr_loop device vrf_name ns st = Inr st'"
proof (induction ns arbitrary: st)
  case Nil
  then show ?case by simp
next
  case (Cons np ns)
  obtain nbr props where np: "np = (nbr, props)" by (cases np)
  from Cons.prems np obtain state where "neighbor_state props = Inr state"
    by (cases "neighbor_state props") auto
  with Cons.prems Cons.IH show ?case
    by (simp add: np Let_def)
qed

lemma vrf_loop_total:
  "list_all (\<lambda>v. case vrf_neighbors (snd v) of
                    Inl e \<Rightarrow> False
                  | Inr ns \<Rightarrow> list_all (\<lambda>np. isl (neighbor_state (snd np)) = False) ns) vrfs \<Longrightarrow>
     \<exists>st'. vrf_loop device vrfs st = Inr st'"
proof (induction vrfs arbitrary: st)
  case Nil
  then show ?case by simp
next
  case (Cons v vrfs)
  obtain vrf_name vrf_data where v: "v = (vrf_name, vrf_data)" by (cases v)
  from Cons.prems v obtain ns where ns: "vrf_neighbors vrf_data = Inr ns"
    and ok: "list_all (\<lambda>np. isl (neighbor_state (snd np)) = False) ns"
    by (cases "vrf_neighbors vrf_data") auto
  from nbr_loop_total [OF ok] obtain st1 where "nbr_loop device vrf_name ns st = Inr st1"
    by blast
  with Cons.prems Cons.IH [of st1] ns show ?case
    by (simp add: v)
qed

lemma device_loop_total:
  "list_all (\<lambda>s. snapshot_ok (snd s)) sessions \<Longrightarrow> \<exists>st'. device_loop sessions st = Inr st'"
proof (induction sessions arbitrary: st)
  case Nil
  then show ?case by simp
next
  case (Cons s sessions)
  obtain device bgp_info where s: "s = (device, bgp_info)" by (cases s)
  from Cons.prems s obtain vrfs where vrfs: "device_vrfs bgp_info = Inr vrfs"
    and ok: "list_all (\<lambda>v. case vrf_neighbors (snd v) of
                    Inl e \<Rightarrow> False
                  | Inr ns \<Rightarrow> list_all (\<lambda>np. isl (neighbor_state (snd np)) = False) ns) vrfs"
    by (cases "device_vrfs bgp_info") (auto simp: snapshot_ok_def)
  from vrf_loop_total [OF ok] obtain st1 where "vrf_loop device vrfs st = Inr st1"
    by blast
  with Cons.prems Cons.IH vrfs show ?case
    by (simp add: s)
qed

lemma check_bgp_total:
  "list_all (\<lambda>s. snapshot_ok (snd s)) sessions \<Longrightarrow> \<exists>st sig. check_bgp sessions = Inr (st, sig)"
proof -
  assume "list_all (\<lambda>s. snapshot_ok (snd s)) sessions"
  from device_loop_total [OF this]
  obtain st' where "device_loop sessions \<lparr>failed_dict = [], results_table = [], log = []\<rparr> = Inr st'"
    by blast
  then show ?thesis
    by (simp add: check_bgp_def)
qed

section \<open>The failure dictionary\<close>

lemma map_of_record_failure:
  "map_of (record_failure fd device nbr props) d =
     (if d = device then Some (dict_setitem (inner_dict fd device) nbr props) else map_of fd d)"
  by (cases "map_of fd device")
     (simp_all add: record_failure_def dict_setdefault_def inner_dict_def map_of_dict_setitem
        map_add_def split: option.splits)

lemma keys_record_failure:
  "fst ` set (record_failure fd device nbr props) = insert device (fst ` set fd)"
  by (cases "map_of fd device")
     (auto simp: record_failure_def dict_setdefault_def keys_dict_setitem)

lemma distinct_record_failure:
  "distinct (map fst fd) \<Longrightarrow> distinct (map fst (record_failure fd device nbr props))"
proof (cases "map_of fd device")
  case None
  assume "distinct (map fst fd)"
  with None have "distinct (map fst (fd @ [(device, [])]))"
    by (simp add: map_of_eq_None_iff)
  then have "distinct (map fst (dict_setitem (fd @ [(device, [])]) device (dict_setitem [] nbr props)))"
    by (rule distinct_dict_setitem)
  with None show ?thesis
    by (simp add: record_failure_def dict_setdefault_def)
next
  case (Some w)
  assume "distinct (map fst fd)"
  then have "distinct (map fst (dict_setitem fd device (dict_setitem w nbr props)))"
    by (rule distinct_dict_setitem)
  with Some show ?thesis
    by (simp add: record_failure_def dict_setdefault_def)
qed

lemma inner_record_failure:
  "inner_dict (record_failure fd device nbr props) d =
     (if d = device then dict_setitem (inner_dict fd device) nbr props else inner_dict fd d)"
  by (simp add: inner_dict_def map_of_record_failure)

lemma map_of_record_failures:
  "map_of (record_failures fd device ns) d =
     (if d = device \<and> filter neighbor_failed ns \<noteq> []
      then Some (setitems (inner_dict fd device) (filter neighbor_failed ns))
      else map_of fd d)"
proof (induction ns arbitrary: fd)
  case Nil
  then show ?case by (simp add: record_failures_Nil)
next
  case (Cons n ns)
  obtain vrf_name nbr props where n: "n = (vrf_name, nbr, props)" by (cases n)
  show ?case
  proof (cases "neighbor_failed n")
    case True
    then show ?thesis
      using Cons.IH [of "record_failure fd device nbr props"]
      by (auto simp: n record_failures_Cons map_of_record_failure inner_record_failure
            setitems_def)
  next
    case False
    then show ?thesis
      using Cons.IH [of fd] by (simp add: n record_failures_Cons)
  qed
qed

lemma keys_record_failures:
  "fst ` set (record_failures fd device ns) =
     (if filter neighbor_failed ns = [] then fst ` set fd else insert device (fst ` set fd))"
proof -
  have "dom (map_of (record_failures fd device ns)) =
     (if filter neighbor_failed ns = [] then dom (map_of fd) else insert device (dom (map_of fd)))"
    by (auto simp: map_of_record_failures dom_def)
  then show ?thesis
    by (simp add: dom_map_of_conv_image_fst)
qed

lemma distinct_record_failures:
  "distinct (map fst fd) \<Longrightarrow> distinct (map fst (record_failures fd device ns))"
proof (induction ns arbitrary: fd)
  case Nil
  then show ?case by (simp add: record_failures_Nil)
next
  case (Cons n ns)
  obtain vrf_name nbr props where n: "n = (vrf_name, nbr, props)" by (cases n)
  show ?case
    using Cons.IH Cons.prems by (simp add: n record_failures_Cons distinct_record_failure)
qed

lemma map_of_setitems:
  "map_of (setitems e ns) = map_of e ++ map_of (rev (map snd ns))"
proof (induction ns arbitrary: e)
  case Nil
  then show ?case by (simp add: setitems_def)
next
  case (Cons n ns)
  obtain vrf_name nbr props where n: "n = (vrf_name, nbr, props)" by (cases n)
  have "setitems e (n # ns) = setitems (dict_setitem e nbr props) ns"
    by (simp add: setitems_def n)
  then have "map_of (setitems e (n # ns)) = map_of (dict_setitem e nbr props) ++ map_of (rev (map snd ns))"
    by (simp only: Cons.IH)
  then have "map_of (setitems e (n # ns)) = (map_of e)(nbr \<mapsto> props) ++ map_of (rev (map snd ns))"
    by (simp only: map_of_dict_setitem)
  also have "\<dots> = map_of e ++ ([nbr \<mapsto> props] ++ map_of (rev (map snd ns)))"
    by (simp add: map_add_upd_left fun_eq_iff map_add_def split: option.splits)
  finally show ?case
    by (simp add: n)
qed

lemma distinct_setitems:
  "distinct (map fst e) \<Longrightarrow> distinct (map fst (setitems e ns))"
proof (induction ns arbitrary: e)
  case Nil
  then show ?case by (simp add: setitems_def)
next
  case (Cons n ns)
  obtain vrf_name nbr props where n: "n = (vrf_name, nbr, props)" by (cases n)
  have "setitems e (n # ns) = setitems (dict_setitem e nbr props) ns"
    by (simp add: setitems_def n)
  then show ?case
    using Cons.IH Cons.prems by (simp add: distinct_dict_setitem)
qed

lemma map_of_all_failures:
  "distinct (map fst sessions) \<Longrightarrow>
   map_of (all_failures fd sessions) d =
     (case map_of sessions d of
        None \<Rightarrow> map_of fd d
      | Some bgp_info \<Rightarrow>
          (if filter neighbor_failed (device_neighbors bgp_info) = [] then map_of fd d
           else Some (setitems (inner_dict fd d) (filter neighbor_failed (device_neighbors bgp_info)))))"
proof (induction sessions arbitrary: fd)
  case Nil
  then show ?case by (simp add: all_failures_def)
next
  case (Cons s sessions)
  obtain device bgp_info where s: "s = (device, bgp_info)" by (cases s)
  let ?fd = "record_failures fd device (device_neighbors bgp_info)"
  have step: "all_failures fd ((device, bgp_info) # sessions) = all_failures ?fd sessions"
    by (simp add: all_failures_def)
  from Cons.prems have d: "distinct (map fst sessions)" and notin: "device \<notin> fst ` set sessions"
    by (auto simp: s)
  show ?case
  proof (cases "d = device")
    case True
    with notin have "map_of sessions d = None"
      by (simp add: map_of_eq_None_iff)
    then show ?thesis
      using Cons.IH [OF d, of ?fd] True
      by (simp add: step s map_of_record_failures)
  next
    case False
    then have m: "map_of ?fd d = map_of fd d"
      by (simp add: map_of_record_failures)
    then have "inner_dict ?fd d = inner_dict fd d"
      by (simp add: inner_dict_def)
    with m show ?thesis
      using Cons.IH [OF d, of ?fd] False
      by (simp add: step s split: option.splits)
  qed
qed

lemma distinct_all_failures:
  "distinct (map fst fd) \<Longrightarrow> distinct (map fst (all_failures fd sessions))"
proof (induction sessions arbitrary: fd)
  case Nil
  then show ?case by (simp add: all_failures_def)
next
  case (Cons s sessions)
  have "all_failures fd (s # sessions) =
          all_failures (record_failures fd (fst s) (device_neighbors (snd s))) sessions"
    by (simp add: all_failures_def)
  then show ?case
    using Cons.IH Cons.prems by (simp add: distinct_record_failures)
qed

lemma map_of_failed_dict:
  assumes "check_bgp sessions = Inr (st, sig)" and "distinct (map fst sessions)"
  shows "map_of (failed_dict st) device =
     (case map_of sessions device of
        None \<Rightarrow> None
      | Some bgp_info \<Rightarrow>
          (if filter neighbor_failed (device_neighbors bgp_info) = [] then None
           else Some (setitems [] (filter neighbor_failed (device_neighbors bgp_info)))))"
proof -
  from check_bgp_Inr [OF assms(1)] have "failed_dict st = all_failures [] sessions"
    by simp
  then show ?thesis
    using map_of_all_failures [OF assms(2), of "[]" device]
    by (simp add: inner_dict_def split: option.splits)
qed

lemma keys_setitems_Nil: "fst ` set (setitems [] ns) = (\<lambda>n. fst (snd n)) ` set ns"
proof -
  have "dom (map_of (setitems [] ns)) = dom (map_of (rev (map snd ns)))"
    by (simp add: map_of_setitems)
  then show ?thesis
    by (simp add: dom_map_of_conv_image_fst image_image)
qed

lemma set_setitems_Nil:
  assumes "(nbr, props) \<in> set (setitems [] ns)"
  shows "\<exists>vrf_name. (vrf_name, nbr, props) \<in> set ns"
proof -
  have "distinct (map fst (setitems [] ns))"
    by (rule distinct_setitems) simp
  with assms have "map_of (setitems [] ns) nbr = Some props"
    by simp
  then have "map_of (rev (map snd ns)) nbr = Some props"
    by (simp add: map_of_setitems)
  then have "(nbr, props) \<in> set (rev (map snd ns))"
    by (rule map_of_SomeD)
  then show ?thesis
    by auto
qed

lemma all_failures_empty:
  "\<forall>s\<in>set sessions. device_neighbors (snd s) = [] \<Longrightarrow> all_failures fd sessions = fd"
  by (induction sessions arbitrary: fd) (simp_all add: all_failures_def record_failures_Nil)

lemma device_rows_empty:
  "\<forall>s\<in>set sessions. device_neighbors (snd s) = [] \<Longrightarrow> device_rows sessions = []"
  by (simp add: device_rows_def)

lemma length_device_logs: "length (device_logs rt sessions) = 2 * length sessions"
  by (induction rt sessions rule: device_logs.induct) simp_all

lemma device_logs_no_json: "LogErrorJson fd \<notin> set (device_logs rt sessions)"
  by (induction rt sessions rule: device_logs.induct) simp_all

lemma tables_device_logs: "length (filter is_table (device_logs rt sessions)) = length sessions"
  by (induction rt sessions rule: device_logs.induct) (simp_all add: is_table_def)

section \<open>The examples\<close>

lemmas eval_defs = bgp_snapshot_def check_bgp_def device_vrfs_def vrf_neighbors_def
  neighbor_state_def verdict_def Let_def str_lower_def str_capitalize_def lower_chr_def
  upper_chr_def ascii_lowercase_def ascii_uppercase_def record_failure_def dict_setdefault_def
  table_headers_def

lemma check_bgp_two_devices: "check_bgp two_devices = Inr two_devices_result"
  by (simp add: two_devices_def two_devices_result_def eval_defs)

lemma check_bgp_two_vrfs: "check_bgp two_vrfs = Inr two_vrfs_result"
  by (simp add: two_vrfs_def two_vrfs_result_def eval_defs)

lemma neighbors_two_vrfs:
  "device_neighbors (bgp_snapshot
         [(''default'', [(''10.0.0.1'', ''Idle''), (''10.0.0.2'', ''Established'')]),
          (''blue'', [(''10.0.0.1'', ''Active'')])]) =
     [(''default'', ''10.0.0.1'', PDict [(''session_state'', PStr ''Idle'')]),
      (''default'', ''10.0.0.2'', PDict [(''session_state'', PStr ''Established'')]),
      (''blue'', ''10.0.0.1'', PDict [(''session_state'', PStr ''Active'')])]"
  by (simp add: device_neighbors_def vrf_neighbors_list_def eval_defs)

lemma failed_examples:
  "neighbor_failed (v, n, PDict [(''session_state'', PStr ''Idle'')])"
  "neighbor_failed (v, n, PDict [(''session_state'', PStr ''Active'')])"
  "\<not> neighbor_failed (v, n, PDict [(''session_state'', PStr ''Established'')])"
  by (simp_all add: neighbor_failed_def state_of_def eval_defs)

section \<open>Case of letters\<close>

lemma lower_chr_cases:
  "lower_chr c = CHR ''e'' \<longleftrightarrow> c = CHR ''e'' \<or> c = CHR ''E''"
  "lower_chr c = CHR ''s'' \<longleftrightarrow> c = CHR ''s'' \<or> c = CHR ''S''"
  "lower_chr c = CHR ''t'' \<longleftrightarrow> c = CHR ''t'' \<or> c = CHR ''T''"
  "lower_chr c = CHR ''a'' \<longleftrightarrow> c = CHR ''a'' \<or> c = CHR ''A''"
  "lower_chr c = CHR ''b'' \<longleftrightarrow> c = CHR ''b'' \<or> c = CHR ''B''"
  "lower_chr c = CHR ''l'' \<longleftrightarrow> c = CHR ''l'' \<or> c = CHR ''L''"
  "lower_chr c = CHR ''i'' \<longleftrightarrow> c = CHR ''i'' \<or> c = CHR ''I''"
  "lower_chr c = CHR ''h'' \<longleftrightarrow> c = CHR ''h'' \<or> c = CHR ''H''"
  "lower_chr c = CHR ''d'' \<longleftrightarrow> c = CHR ''d'' \<or> c = CHR ''D''"
  by (auto simp: lower_chr_def ascii_uppercase_def ascii_lowercase_def split: if_splits)

lemma upper_established:
  "upper_chr CHR ''e'' = CHR ''E''" "upper_chr CHR ''s'' = CHR ''S''"
  "upper_chr CHR ''t'' = CHR ''T''" "upper_chr CHR ''a'' = CHR ''A''"
  "upper_chr CHR ''b'' = CHR ''B''" "upper_chr CHR ''l'' = CHR ''L''"
  "upper_chr CHR ''i'' = CHR ''I''" "upper_chr CHR ''h'' = CHR ''H''"
  "upper_chr CHR ''d'' = CHR ''D''"
  by (simp_all add: upper_chr_def ascii_uppercase_def ascii_lowercase_def)

lemma str_lower_established_iff:
  "str_lower s = ''established'' \<longleftrightarrow> case_variant s ''established''"
  by (simp add: str_lower_def case_variant_def map_eq_Cons_conv list_all2_Cons2
        lower_chr_cases upper_established)

text \<open>A string that differs from ASCII text in the case of its letters only is ASCII.\<close>

lemma case_variant_isascii:
  "case_variant s t \<Longrightarrow> isascii t \<Longrightarrow> isascii (map upper_chr t) \<Longrightarrow> isascii s"
  unfolding case_variant_def isascii_def
  by (induction rule: list_all2_induct) auto

lemma established_isascii: "case_variant s ''established'' \<Longrightarrow> isascii s"
  by (erule case_variant_isascii) (simp_all add: isascii_def upper_established)

section \<open>Missing levels\<close>

lemma device_vrfs_missing:
  assumes "vrf_level_missing bgp_info"
  shows "device_vrfs bgp_info = Inr []"
proof (cases bgp_info)
  case (PDict d)
  show ?thesis
  proof (cases "map_of d ''instance''")
    case None
    with PDict show ?thesis by (simp add: device_vrfs_def)
  next
    case (Some inst)
    show ?thesis
    proof (cases inst)
      case inst: (PDict i)
      show ?thesis
      proof (cases "map_of i ''default''")
        case None
        with PDict Some inst show ?thesis by (simp add: device_vrfs_def)
      next
        case dflt: (Some dflt)
        show ?thesis
          using assms PDict Some inst dflt
          by (cases dflt) (simp_all add: device_vrfs_def vrf_level_missing_def)
      qed
    qed (use assms PDict Some in \<open>simp_all add: vrf_level_missing_def\<close>)
  qed
qed (use assms in \<open>simp_all add: vrf_level_missing_def\<close>)

lemma vrf_neighbors_missing: "neighbor_level_missing vrf_data \<Longrightarrow> vrf_neighbors vrf_data = Inr []"
  by (cases vrf_data) (simp_all add: neighbor_level_missing_def vrf_neighbors_def)

lemma snapshot_ok_missing: "vrf_level_missing bgp_info \<Longrightarrow> snapshot_ok bgp_info"
  by (simp add: snapshot_ok_def device_vrfs_missing)

lemma device_neighbors_missing: "vrf_level_missing bgp_info \<Longrightarrow> device_neighbors bgp_info = []"
  by (simp add: device_neighbors_def device_vrfs_missing)

section \<open>The connection and collection loops\<close>

text \<open>
  The connection loop ends at the first device that does not connect; only when every
  device connects does \<^verbatim>\<open>connect\<close> reach line 46 and pass the devices on.
\<close>

lemma connect_loop_stops:
  "list_all (\<lambda>x. connect_raises x = None) pre \<Longrightarrow> connect_raises d = Some e \<Longrightarrow>
   connect_loop (pre @ d # post) device_list lg =
     (device_list @ pre, lg @ connecting (pre @ [d]),
      Some (AEtestFailedSignal
             (''Failed to establish connection to '' @ quoted (name d) @ '': '' @ e) []))"
proof (induction pre arbitrary: device_list lg)
  case Nil
  then show ?case by (simp add: connecting_def)
next
  case (Cons x pre)
  from Cons.prems have "connect_raises x = None" "list_all (\<lambda>x. connect_raises x = None) pre"
    by simp_all
  with Cons.IH [OF this(2) Cons.prems(2)] show ?case
    by (simp add: connecting_def)
qed

lemma connect_loop_all:
  "list_all (\<lambda>x. connect_raises x = None) ds \<Longrightarrow>
   connect_loop ds device_list lg = (device_list @ ds, lg @ connecting ds, None)"
  by (induction ds arbitrary: device_list lg) (simp_all add: connecting_def)

lemma connect_first_failure:
  assumes "list_all (\<lambda>x. connect_raises x = None) pre" and "connect_raises d = Some e"
  shows "connect (pre @ d # post) params =
     (params\<lparr>testbed := Some (pre @ d # post)\<rparr>, connecting (pre @ [d]),
      Some (AEtestFailedSignal
             (''Failed to establish connection to '' @ quoted (name d) @ '': '' @ e) []))"
  using connect_loop_stops [OF assms, of post "[]" "[]"]
  by (simp add: connect_def)

lemma connect_all_connected:
  assumes "list_all (\<lambda>x. connect_raises x = None) ds"
  shows "connect ds params =
     (params\<lparr>testbed := Some ds, devices := Some ds\<rparr>, connecting ds, None)"
  using connect_loop_all [OF assms, of "[]" "[]"]
  by (simp add: connect_def)

lemma learn_loop_stops:
  "list_all (\<lambda>x. learnt_info x \<noteq> None) pre \<Longrightarrow> learnt_info d = None \<Longrightarrow>
   learn_loop (pre @ d # post) sessions lg =
     (collected sessions pre, lg @ gathering (pre @ [d]),
      Some (AEtestFailedSignal (''Failed to learn BGP info from device '' @ name d)
              [''common_cleanup'']))"
proof (induction pre arbitrary: sessions lg)
  case Nil
  then show ?case by (simp add: collected_def gathering_def)
next
  case (Cons x pre)
  from Cons.prems obtain info where i: "learnt_info x = Some info" by auto
  from Cons.prems have "list_all (\<lambda>x. learnt_info x \<noteq> None) pre" by simp
  from Cons.IH [OF this Cons.prems(2)] i show ?case
    by (simp add: collected_def gathering_def)
qed

section \<open>The store: what \<^verbatim>\<open>check_bgp\<close> writes\<close>

lemma index_fresh_append:
  assumes "index_fresh n h fd"
  shows "index_fresh n (h @ xs) fd"
proof -
  from assms obtain a where fd: "fd = HRef a" and a: "n \<le> a" "a < length h"
    and l: "list_all (\<lambda>kv. case snd kv of HRef b \<Rightarrow> a < b \<and> b < length h | _ \<Rightarrow> False) (h ! a)"
    by (cases fd) (auto simp: index_fresh_def)
  from l have "list_all (\<lambda>kv. case snd kv of HRef b \<Rightarrow> a < b \<and> b < length (h @ xs) | _ \<Rightarrow> False) (h ! a)"
    by (auto simp: list_all_iff split: hval.splits)
  with a show ?thesis
    by (simp add: index_fresh_def fd nth_append)
qed

lemma record_failure_store_frame:
  assumes "index_fresh n h fd" and "record_failure_store h fd device nbr props = (h', r)"
  shows "take n h' = take n h \<and> length h \<le> length h' \<and> index_fresh n h' fd"
proof -
  from assms(1) obtain a where fd: "fd = HRef a" and a: "n \<le> a" "a < length h"
    and l: "list_all (\<lambda>kv. case snd kv of HRef b \<Rightarrow> a < b \<and> b < length h | _ \<Rightarrow> False) (h ! a)"
    by (cases fd) (auto simp: index_fresh_def)
  let ?h1 = "h @ [[]]"
  have h1a: "?h1 ! a = h ! a"
    using a by (simp add: nth_append)
  show ?thesis
  proof (cases "map_of (h ! a) device")
    case None
    let ?h2 = "?h1[a := h ! a @ [(device, HRef (length h))]]"
    let ?h3 = "?h2[length h := dict_setitem (?h2 ! length h) nbr props]"
    from None a assms(2) have h': "h' = ?h3"
      by (simp add: record_failure_store_def store_new_def store_setdefault_def
            store_setitem_def fd h1a)
    have t: "take n ?h3 = take n h"
      using a by simp
    have at: "?h3 ! a = h ! a @ [(device, HRef (length h))]"
      using a by simp
    have len: "length ?h3 = Suc (length h)"
      by simp
    from l have "list_all (\<lambda>kv. case snd kv of HRef b \<Rightarrow> a < b \<and> b < Suc (length h) | _ \<Rightarrow> False)
                   (h ! a @ [(device, HRef (length h))])"
      using a by (auto simp: list_all_iff split: hval.splits)
    with a have "index_fresh n ?h3 fd"
      unfolding index_fresh_def fd hval.case len at by simp
    with t h' show ?thesis
      by simp
  next
    case (Some w)
    then have "(device, w) \<in> set (h ! a)"
      by (rule map_of_SomeD)
    with l obtain b where w: "w = HRef b" and b: "a < b" "b < length h"
      by (cases w) (auto simp: list_all_iff)
    let ?h3 = "?h1[b := dict_setitem (?h1 ! b) nbr props]"
    from Some a b assms(2) have h': "h' = ?h3"
      by (simp add: record_failure_store_def store_new_def store_setdefault_def
            store_setitem_def fd h1a w)
    have t: "take n ?h3 = take n h"
      using a b by simp
    have at: "?h3 ! a = h ! a"
      using a b by (simp add: nth_append)
    have len: "length ?h3 = Suc (length h)"
      by simp
    from l have "list_all (\<lambda>kv. case snd kv of HRef b \<Rightarrow> a < b \<and> b < Suc (length h) | _ \<Rightarrow> False) (h ! a)"
      by (auto simp: list_all_iff split: hval.splits)
    with a have "index_fresh n ?h3 fd"
      unfolding index_fresh_def fd hval.case len at by simp
    with t h' show ?thesis
      by simp
  qed
qed

lemma nbr_loop_store_frame:
  "index_fresh n h fd \<Longrightarrow> nbr_loop_store device vrf_name ns fd rt h = (h', r) \<Longrightarrow>
     take n h' = take n h \<and> length h \<le> length h' \<and> index_fresh n h' fd"
proof (induction ns arbitrary: h rt)
  case Nil
  then show ?case by simp
next
  case (Cons np ns)
  obtain nbr props where np: "np = (nbr, props)" by (cases np)
  show ?case
  proof (cases "neighbor_state_store h props")
    case (Inl e)
    with Cons.prems show ?thesis by (simp add: np)
  next
    case (Inr state)
    obtain h1 r1 where step:
      "(if verdict state = ''Failed'' then record_failure_store h fd device nbr props
        else (h, Inr ())) = (h1, r1)"
      by (cases "if verdict state = ''Failed'' then record_failure_store h fd device nbr props
        else (h, Inr ())")
    have k1: "take n h1 = take n h \<and> length h \<le> length h1 \<and> index_fresh n h1 fd"
    proof (cases "verdict state = ''Failed''")
      case True
      with step have "record_failure_store h fd device nbr props = (h1, r1)" by simp
      from record_failure_store_frame [OF Cons.prems(1) this] show ?thesis .
    next
      case False
      with step Cons.prems(1) show ?thesis by simp
    qed
    show ?thesis
    proof (cases r1)
      case (Inl e)
      with Cons.prems(2) Inr step k1 show ?thesis
        by (simp add: np Let_def)
    next
      case r1: (Inr u)
      with Cons.prems(2) Inr step
      have "nbr_loop_store device vrf_name ns fd
              (rt @ [[vrf_name, nbr, str_capitalize state, verdict state]]) h1 = (h', r)"
        by (simp add: np Let_def)
      from Cons.IH [OF _ this] k1 show ?thesis
        by simp
    qed
  qed
qed

lemma vrf_neighbors_store_frame:
  "vrf_neighbors_store h vrf_data = (h1, r) \<Longrightarrow> h1 = h @ [[]]"
  by (auto simp: vrf_neighbors_store_def store_new_def)

lemma vrf_loop_store_frame:
  "index_fresh n h fd \<Longrightarrow> vrf_loop_store device vrfs fd rt h = (h', r) \<Longrightarrow>
     take n h' = take n h \<and> length h \<le> length h' \<and> index_fresh n h' fd"
proof (induction vrfs arbitrary: h rt)
  case Nil
  then show ?case by simp
next
  case (Cons v vrfs)
  obtain vrf_name vrf_data where v: "v = (vrf_name, vrf_data)" by (cases v)
  obtain h1 r1 where s1: "vrf_neighbors_store h vrf_data = (h1, r1)"
    by (cases "vrf_neighbors_store h vrf_data")
  from vrf_neighbors_store_frame [OF s1] have h1: "h1 = h @ [[]]" .
  from Cons.prems(1) have f1: "index_fresh n h1 fd"
    unfolding h1 by (rule index_fresh_append)
  from Cons.prems(1) have na: "n \<le> length h"
    by (auto simp: index_fresh_def split: hval.splits)
  show ?case
  proof (cases r1)
    case (Inl e)
    with Cons.prems(2) s1 have "h' = h1"
      by (simp add: v)
    with f1 na show ?thesis
      by (simp add: h1)
  next
    case (Inr neighbors)
    obtain h2 r2 where s2: "nbr_loop_store device vrf_name neighbors fd rt h1 = (h2, r2)"
      by (cases "nbr_loop_store device vrf_name neighbors fd rt h1")
    from nbr_loop_store_frame [OF f1 s2]
    have k2: "take n h2 = take n h1" "length h1 \<le> length h2" "index_fresh n h2 fd"
      by simp_all
    show ?thesis
    proof (cases r2)
      case (Inl e)
      with Cons.prems(2) s1 s2 Inr have "h' = h2"
        by (simp add: v)
      with k2 na show ?thesis
        by (simp add: h1)
    next
      case r2: (Inr rt')
      with Cons.prems(2) s1 s2 Inr have "vrf_loop_store device vrfs fd rt' h2 = (h', r)"
        by (simp add: v)
      from Cons.IH [OF k2(3) this] k2 na show ?thesis
        by (simp add: h1)
    qed
  qed
qed

lemma device_vrfs_store_frame:
  "device_vrfs_store h bgp_info = (h1, r) \<Longrightarrow> \<exists>xs. h1 = h @ xs"
  by (auto simp: device_vrfs_store_def store_new_def split: sum.splits)

lemma device_loop_store_frame:
  "index_fresh n h fd \<Longrightarrow> device_loop_store sessions fd rt h = (h', r) \<Longrightarrow>
     take n h' = take n h \<and> length h \<le> length h' \<and> index_fresh n h' fd"
proof (induction sessions arbitrary: h rt)
  case Nil
  then show ?case by simp
next
  case (Cons s sessions)
  obtain device bgp_info where s: "s = (device, bgp_info)" by (cases s)
  obtain h1 r1 where s1: "device_vrfs_store h bgp_info = (h1, r1)"
    by (cases "device_vrfs_store h bgp_info")
  from device_vrfs_store_frame [OF s1] obtain xs where h1: "h1 = h @ xs" by blast
  from Cons.prems(1) have f1: "index_fresh n h1 fd"
    unfolding h1 by (rule index_fresh_append)
  from Cons.prems(1) have na: "n \<le> length h"
    by (auto simp: index_fresh_def split: hval.splits)
  show ?case
  proof (cases r1)
    case (Inl e)
    with Cons.prems(2) s1 have "h' = h1"
      by (simp add: s)
    with f1 na show ?thesis
      by (simp add: h1)
  next
    case (Inr vrfs)
    obtain h2 r2 where s2: "vrf_loop_store device vrfs fd rt h1 = (h2, r2)"
      by (cases "vrf_loop_store device vrfs fd rt h1")
    from vrf_loop_store_frame [OF f1 s2]
    have k2: "take n h2 = take n h1" "length h1 \<le> length h2" "index_fresh n h2 fd"
      by simp_all
    show ?thesis
    proof (cases r2)
      case (Inl e)
      with Cons.prems(2) s1 s2 Inr have "h' = h2"
        by (simp add: s)
      with k2 na show ?thesis
        by (simp add: h1)
    next
      case r2: (Inr rt')
      with Cons.prems(2) s1 s2 Inr have "device_loop_store sessions fd rt' h2 = (h', r)"
        by (simp add: s)
      from Cons.IH [OF k2(3) this] k2 na show ?thesis
        by (simp add: h1)
    qed
  qed
qed

lemma check_bgp_store_frame:
  assumes "check_bgp_store h all_bgp_sessions = (h', r)"
  shows "take (length h) h' = h \<and> length h < length h'"
proof -
  let ?h1 = "h @ [[]]"
  let ?fd = "HRef (length h)"
  have f: "index_fresh (length h) ?h1 ?fd"
    by (simp add: index_fresh_def)
  show ?thesis
  proof (cases "store_items ?h1 all_bgp_sessions")
    case (Inl e)
    with assms show ?thesis
      by (auto simp: check_bgp_store_def store_new_def)
  next
    case (Inr sessions)
    obtain h2 r2 where s2: "device_loop_store sessions ?fd [] ?h1 = (h2, r2)"
      by (cases "device_loop_store sessions ?fd [] ?h1")
    from device_loop_store_frame [OF f s2]
    have k: "take (length h) h2 = h" "length ?h1 \<le> length h2"
      by simp_all
    from assms Inr s2 have "h' = h2"
      by (cases r2) (auto simp: check_bgp_store_def store_new_def)
    with k show ?thesis
      by simp
  qed
qed

section \<open>The store: what a value denotes\<close>

inductive_simps repr_items_Nil_iff: "repr_items h [] d'"

inductive_simps repr_items_Cons_iff: "repr_items h (x # d) d'"

inductive_simps repr_HRef_iff: "repr h (HRef a) p"

inductive_simps repr_HStr_iff: "repr h (HStr s) p"

lemma extends_length:
  assumes "extends h0 h"
  shows "length h0 \<le> length h"
proof -
  from assms have "length (take (length h0) h) = length h0"
    by (simp add: extends_def)
  then show ?thesis
    by simp
qed

lemma extends_nth:
  assumes "extends h0 h" and "a < length h0"
  shows "h ! a = h0 ! a"
proof -
  from assms(2) have "take (length h0) h ! a = h ! a"
    by simp
  with assms(1) show ?thesis
    by (simp add: extends_def)
qed

lemma extends_refl: "extends h h"
  by (simp add: extends_def)

lemma extends_append: "extends h0 h \<Longrightarrow> extends h0 (h @ xs)"
  using extends_length [of h0 h] by (simp add: extends_def)

lemma extends_take: "extends h0 h \<Longrightarrow> take (length h0) h' = take (length h0) h \<Longrightarrow> extends h0 h'"
  by (simp add: extends_def)

lemma extends_trans:
  assumes "extends h0 h1" and "extends h1 h2"
  shows "extends h0 h2"
proof -
  from assms(2) have "take (length h0) (take (length h1) h2) = take (length h0) h1"
    by (simp add: extends_def)
  with extends_length [OF assms(1)] assms(1) show ?thesis
    by (simp add: extends_def min_def)
qed

lemma repr_mono:
  assumes "extends h h'"
  shows "repr h v p \<Longrightarrow> repr h' v p"
    and "repr_list h vs ps \<Longrightarrow> repr_list h' vs ps"
    and "repr_items h d d' \<Longrightarrow> repr_items h' d d'"
proof (induction rule: repr_repr_list_repr_items.inducts)
  case (repr_Dict a d)
  then show ?case
    using extends_length [OF assms] extends_nth [OF assms, of a]
    by (auto intro!: repr_repr_list_repr_items.intros)
qed (auto intro: repr_repr_list_repr_items.intros)

lemma repr_items_keys: "repr_items h d d' \<Longrightarrow> map fst d = map fst d'"
  by (induction d arbitrary: d') (auto simp: repr_items_Nil_iff repr_items_Cons_iff)

lemma repr_items_map_of:
  "repr_items h d d' \<Longrightarrow> rel_option (repr h) (map_of d k) (map_of d' k)"
  by (induction d arbitrary: d') (auto simp: repr_items_Nil_iff repr_items_Cons_iff)

lemma repr_items_setitem:
  "repr_items h d d' \<Longrightarrow> repr h v p \<Longrightarrow>
     repr_items h (dict_setitem d k v) (dict_setitem d' k p)"
  by (induction d arbitrary: d')
     (auto simp: repr_items_Nil_iff repr_items_Cons_iff intro: repr_repr_list_repr_items.intros)

lemma vrel_append: "vrel h0 h v p \<Longrightarrow> vrel h0 (h @ xs) v p"
  by (auto simp: vrel_def nth_append)

lemma vrel_new: "extends h0 h \<Longrightarrow> vrel h0 (h @ [[]]) (HRef (length h)) (PDict [])"
  using extends_length [of h0 h] by (simp add: vrel_def)

lemma store_get_vrel:
  assumes "extends h0 h" and "vrel h0 h v p" and "vrel h0 h dv pd"
  shows "rel_sum (=) (vrel h0 h) (store_get h v k dv) (dict_get p k pd)"
proof -
  from assms(2) consider (input) "repr h0 v p"
    | (fresh) a where "v = HRef a" "length h0 \<le> a" "a < length h" "h ! a = []" "p = PDict []"
    by (auto simp: vrel_def)
  then show ?thesis
  proof cases
    case input
    then show ?thesis
    proof (cases rule: repr.cases)
      case (repr_Dict a d)
      with assms(1) have "store_dict h v = Some (h0 ! a)"
        using extends_length [of h0 h] extends_nth [of h0 h a] by (simp add: store_dict_def)
      moreover from repr_Dict have "rel_option (repr h0) (map_of (h0 ! a) k) (map_of d k)"
        by (simp add: repr_items_map_of)
      ultimately show ?thesis
        using assms(3) repr_Dict
        by (cases "map_of (h0 ! a) k"; cases "map_of d k")
           (auto simp: store_get_def vrel_def)
    qed (simp_all add: store_get_def store_dict_def)
  next
    case fresh
    with assms(3) show ?thesis
      by (simp add: store_get_def store_dict_def)
  qed
qed

lemma store_items_vrel:
  assumes "extends h0 h" and "vrel h0 h v p"
  shows "rel_sum (=) (repr_items h0) (store_items h v) (dict_items p)"
proof -
  from assms(2) consider (input) "repr h0 v p"
    | (fresh) a where "v = HRef a" "length h0 \<le> a" "a < length h" "h ! a = []" "p = PDict []"
    by (auto simp: vrel_def)
  then show ?thesis
  proof cases
    case input
    then show ?thesis
    proof (cases rule: repr.cases)
      case (repr_Dict a d)
      with assms(1) have "store_dict h v = Some (h0 ! a)"
        using extends_length [of h0 h] extends_nth [of h0 h a] by (simp add: store_dict_def)
      with repr_Dict show ?thesis
        by (simp add: store_items_def)
    qed (simp_all add: store_items_def store_dict_def)
  next
    case fresh
    then show ?thesis
      by (simp add: store_items_def store_dict_def repr_items_Nil)
  qed
qed

lemma store_lower_vrel:
  assumes "vrel h0 h v p"
  shows "store_lower v = py_lower p"
proof -
  from assms consider (input) "repr h0 v p"
    | (fresh) a where "v = HRef a" "p = PDict []"
    by (auto simp: vrel_def)
  then show ?thesis
  proof cases
    case input
    then show ?thesis
      by (cases rule: repr.cases) (simp_all add: store_lower_def)
  next
    case fresh
    then show ?thesis
      by (simp add: store_lower_def)
  qed
qed

lemma neighbor_state_store_refines:
  assumes "extends h0 h" and "repr h0 props p"
  shows "neighbor_state_store h props = neighbor_state p"
proof -
  have "vrel h0 h props p" "vrel h0 h (HStr ''Unknown'') (PStr ''Unknown'')"
    using assms(2) by (simp_all add: vrel_def repr_Str)
  from store_get_vrel [OF assms(1) this, of "''session_state''"]
  have g: "rel_sum (=) (vrel h0 h) (store_get h props ''session_state'' (HStr ''Unknown''))
             (dict_get p ''session_state'' (PStr ''Unknown''))" .
  show ?thesis
  proof (cases "store_get h props ''session_state'' (HStr ''Unknown'')")
    case (Inl e)
    with g show ?thesis
      by (cases "dict_get p ''session_state'' (PStr ''Unknown'')")
         (simp_all add: neighbor_state_store_def neighbor_state_def)
  next
    case (Inr x)
    with g obtain q where q: "dict_get p ''session_state'' (PStr ''Unknown'') = Inr q" "vrel h0 h x q"
      by (cases "dict_get p ''session_state'' (PStr ''Unknown'')") simp_all
    from store_lower_vrel [OF q(2)] Inr q(1) show ?thesis
      by (simp add: neighbor_state_store_def neighbor_state_def)
  qed
qed

lemma vrf_neighbors_store_refines:
  assumes "extends h0 h" and "repr h0 vrf_data p"
    and "vrf_neighbors_store h vrf_data = (h1, r)"
  shows "h1 = h @ [[]] \<and> rel_sum (=) (repr_items h0) r (vrf_neighbors p)"
proof -
  let ?h1 = "h @ [[]]"
  have e1: "extends h0 ?h1"
    using assms(1) by (rule extends_append)
  have "vrel h0 ?h1 vrf_data p"
    using assms(2) by (simp add: vrel_def)
  from store_get_vrel [OF e1 this vrel_new [OF assms(1)], of "''neighbor''"]
  have g: "rel_sum (=) (vrel h0 ?h1) (store_get ?h1 vrf_data ''neighbor'' (HRef (length h)))
             (dict_get p ''neighbor'' (PDict []))" .
  from assms(3) have h1: "h1 = ?h1"
    and r: "r = (case store_get ?h1 vrf_data ''neighbor'' (HRef (length h)) of
                   Inl er \<Rightarrow> Inl er
                 | Inr neighbors \<Rightarrow> store_items ?h1 neighbors)"
    by (auto simp: vrf_neighbors_store_def store_new_def)
  show ?thesis
  proof (cases "store_get ?h1 vrf_data ''neighbor'' (HRef (length h))")
    case (Inl e)
    with g r h1 show ?thesis
      by (cases "dict_get p ''neighbor'' (PDict [])") (simp_all add: vrf_neighbors_def)
  next
    case (Inr nb)
    with g obtain pnb where pnb: "dict_get p ''neighbor'' (PDict []) = Inr pnb" "vrel h0 ?h1 nb pnb"
      by (cases "dict_get p ''neighbor'' (PDict [])") simp_all
    from store_items_vrel [OF e1 pnb(2)] Inr pnb(1) r h1 show ?thesis
      by (simp add: vrf_neighbors_def)
  qed
qed

lemma device_vrfs_store_refines:
  assumes "extends h0 h" and "repr h0 bgp_info p"
    and "device_vrfs_store h bgp_info = (h1, r)"
  shows "rel_sum (=) (repr_items h0) r (device_vrfs p)"
proof -
  let ?h1 = "h @ [[]]"
  let ?h2 = "h @ [[], []]"
  let ?h3 = "h @ [[], [], []]"
  have e1: "extends h0 ?h1" using assms(1) by (rule extends_append)
  have e2: "extends h0 ?h2" using assms(1) by (rule extends_append)
  have e3: "extends h0 ?h3" using assms(1) by (rule extends_append)
  have n2: "vrel h0 ?h2 (HRef (Suc (length h))) (PDict [])"
    using vrel_new [OF e1] by simp
  have n3: "vrel h0 ?h3 (HRef (Suc (Suc (length h)))) (PDict [])"
    using vrel_new [OF e2] by simp
  have "vrel h0 ?h1 bgp_info p"
    using assms(2) by (simp add: vrel_def)
  from store_get_vrel [OF e1 this vrel_new [OF assms(1)], of "''instance''"]
  have g1: "rel_sum (=) (vrel h0 ?h1) (store_get ?h1 bgp_info ''instance'' (HRef (length h)))
             (dict_get p ''instance'' (PDict []))" .
  show ?thesis
  proof (cases "store_get ?h1 bgp_info ''instance'' (HRef (length h))")
    case (Inl e)
    with g1 assms(3) show ?thesis
      by (cases "dict_get p ''instance'' (PDict [])")
         (auto simp: device_vrfs_store_def device_vrfs_def store_new_def)
  next
    case i: (Inr inst)
    with g1 obtain pinst where pinst: "dict_get p ''instance'' (PDict []) = Inr pinst"
      "vrel h0 ?h1 inst pinst"
      by (cases "dict_get p ''instance'' (PDict [])") simp_all
    have "vrel h0 ?h2 inst pinst"
      using vrel_append [OF pinst(2), of "[[]]"] by simp
    from store_get_vrel [OF e2 this n2, of "''default''"]
    have g2: "rel_sum (=) (vrel h0 ?h2) (store_get ?h2 inst ''default'' (HRef (Suc (length h))))
             (dict_get pinst ''default'' (PDict []))" .
    show ?thesis
    proof (cases "store_get ?h2 inst ''default'' (HRef (Suc (length h)))")
      case (Inl e)
      with g2 i pinst(1) assms(3) show ?thesis
        by (cases "dict_get pinst ''default'' (PDict [])")
           (auto simp: device_vrfs_store_def device_vrfs_def store_new_def)
    next
      case d: (Inr dflt)
      with g2 obtain pdflt where pdflt: "dict_get pinst ''default'' (PDict []) = Inr pdflt"
        "vrel h0 ?h2 dflt pdflt"
        by (cases "dict_get pinst ''default'' (PDict [])") simp_all
      have "vrel h0 ?h3 dflt pdflt"
        using vrel_append [OF pdflt(2), of "[[]]"] by simp
      from store_get_vrel [OF e3 this n3, of "''vrf''"]
      have g3: "rel_sum (=) (vrel h0 ?h3) (store_get ?h3 dflt ''vrf'' (HRef (Suc (Suc (length h)))))
             (dict_get pdflt ''vrf'' (PDict []))" .
      from assms(3) i d have r: "r = (case store_get ?h3 dflt ''vrf'' (HRef (Suc (Suc (length h)))) of
                                        Inl er \<Rightarrow> Inl er
                                      | Inr vrfs_dict \<Rightarrow> store_items ?h3 vrfs_dict)"
        by (auto simp: device_vrfs_store_def store_new_def)
      show ?thesis
      proof (cases "store_get ?h3 dflt ''vrf'' (HRef (Suc (Suc (length h))))")
        case (Inl e)
        with g3 r pinst(1) pdflt(1) show ?thesis
          by (cases "dict_get pdflt ''vrf'' (PDict [])") (simp_all add: device_vrfs_def)
      next
        case (Inr vd)
        with g3 obtain pvd where pvd: "dict_get pdflt ''vrf'' (PDict []) = Inr pvd"
          "vrel h0 ?h3 vd pvd"
          by (cases "dict_get pdflt ''vrf'' (PDict [])") simp_all
        from store_items_vrel [OF e3 pvd(2)] Inr r pinst(1) pdflt(1) pvd(1) show ?thesis
          by (simp add: device_vrfs_def)
      qed
    qed
  qed
qed

section \<open>The store: the failure dictionary\<close>

lemma dict_setitem_append_new:
  "map_of d k = None \<Longrightarrow> dict_setitem (d @ [(k, x)]) k v = d @ [(k, v)]"
  by (induction d) (auto split: if_splits)

lemma keyed_keys:
  "list_all2 (\<lambda>kv ke. fst kv = fst ke \<and> Q (snd kv) (snd ke)) xs ys \<Longrightarrow> map fst xs = map fst ys"
  by (induction xs ys rule: list_all2_induct) auto

lemma keyed_map_of_None:
  assumes "list_all2 (\<lambda>kv ke. fst kv = fst ke \<and> Q (snd kv) (snd ke)) xs ys"
    and "map_of xs k = None"
  shows "map_of ys k = None"
proof -
  from assms(2) have "k \<notin> set (map fst xs)"
    by (simp add: map_of_eq_None_iff)
  with keyed_keys [OF assms(1)] have "k \<notin> set (map fst ys)"
    by simp
  then show ?thesis
    by (simp add: map_of_eq_None_iff)
qed

lemma keyed_map_of_Some:
  "list_all2 (\<lambda>kv ke. fst kv = fst ke \<and> Q (snd kv) (snd ke)) xs ys \<Longrightarrow>
   map_of xs k = Some w \<Longrightarrow> \<exists>y. map_of ys k = Some y \<and> Q w y"
  by (induction xs ys rule: list_all2_induct) (auto split: if_splits)

lemma keyed_setitem:
  assumes "list_all2 (\<lambda>kv ke. fst kv = fst ke \<and> Q (snd kv) (snd ke)) xs ys"
    and "distinct (map snd xs)" and "map_of xs k = Some w" and "map_of ys k = Some ip"
    and step: "\<And>x y. x \<noteq> w \<Longrightarrow> Q x y \<Longrightarrow> Q' x y"
    and upd: "\<And>y. Q w y \<Longrightarrow> Q' w (f y)"
  shows "list_all2 (\<lambda>kv ke. fst kv = fst ke \<and> Q' (snd kv) (snd ke)) xs (dict_setitem ys k (f ip))"
  using assms(1,2,3,4)
proof (induction xs ys rule: list_all2_induct)
  case Nil
  then show ?case by simp
next
  case (Cons x xs y ys)
  obtain kx vx where x: "x = (kx, vx)" by (cases x)
  obtain ky vy where y: "y = (ky, vy)" by (cases y)
  from Cons.hyps(1) x y have k: "ky = kx" and q: "Q vx vy" by simp_all
  from Cons.prems(1) x have nin: "vx \<notin> snd ` set xs" and d: "distinct (map snd xs)"
    by auto
  show ?case
  proof (cases "kx = k")
    case True
    with Cons.prems(2,3) x y k have w: "w = vx" and ip: "ip = vy"
      by simp_all
    have "list_all2 (\<lambda>kv ke. fst kv = fst ke \<and> Q' (snd kv) (snd ke)) xs ys"
    proof (rule list.rel_mono_strong [OF Cons.hyps(2)])
      fix kv ke
      assume "kv \<in> set xs" and "fst kv = fst ke \<and> Q (snd kv) (snd ke)"
      moreover from \<open>kv \<in> set xs\<close> nin w have "snd kv \<noteq> w"
        by auto
      ultimately show "fst kv = fst ke \<and> Q' (snd kv) (snd ke)"
        using step by blast
    qed
    with True x y k w ip q upd show ?thesis
      by simp
  next
    case False
    with Cons.prems(2,3) x y k have m: "map_of xs k = Some w" "map_of ys k = Some ip"
      by simp_all
    from m(1) have "w \<in> snd ` set xs"
      by (metis map_of_SomeD image_eqI snd_conv)
    with nin have "vx \<noteq> w"
      by auto
    with q step have "Q' vx vy"
      by blast
    with Cons.IH [OF d m] False x y k show ?thesis
      by simp
  qed
qed

lemma index_repr_fresh:
  assumes "index_repr h0 h fd F"
  shows "index_fresh (length h0) h fd"
proof -
  from assms obtain a where fd: "fd = HRef a" and a: "length h0 \<le> a" "a < length h"
    and l: "list_all2 (\<lambda>kv ke. fst kv = fst ke \<and> entry_repr h0 h a (snd kv) (snd ke)) (h ! a) F"
    by (auto simp: index_repr_def)
  have "list_all (\<lambda>kv. case snd kv of HRef b \<Rightarrow> a < b \<and> b < length h | _ \<Rightarrow> False) (h ! a)"
    unfolding list_all_iff
  proof
    fix kv
    assume "kv \<in> set (h ! a)"
    with l obtain ke where "entry_repr h0 h a (snd kv) (snd ke)"
      by (auto simp: list_all2_conv_all_nth in_set_conv_nth)
    then show "case snd kv of HRef b \<Rightarrow> a < b \<and> b < length h | _ \<Rightarrow> False"
      by (auto simp: entry_repr_def)
  qed
  with a show ?thesis
    by (simp add: index_fresh_def fd)
qed

lemma index_repr_append:
  assumes "index_repr h0 h fd F"
  shows "index_repr h0 (h @ xs) fd F"
proof -
  from assms obtain a where fd: "fd = HRef a" and a: "length h0 \<le> a" "a < length h"
    and d: "distinct (map snd (h ! a))"
    and l: "list_all2 (\<lambda>kv ke. fst kv = fst ke \<and> entry_repr h0 h a (snd kv) (snd ke)) (h ! a) F"
    by (auto simp: index_repr_def)
  have "list_all2 (\<lambda>kv ke. fst kv = fst ke \<and> entry_repr h0 (h @ xs) a (snd kv) (snd ke)) (h ! a) F"
    by (rule list_all2_mono [OF l]) (auto simp: entry_repr_def nth_append)
  with a d show ?thesis
    by (auto simp: index_repr_def fd nth_append)
qed

lemma record_failure_store_refines:
  assumes "index_repr h0 h fd F" and "repr h0 props p"
  shows "\<exists>h'. record_failure_store h fd device nbr props = (h', Inr ()) \<and>
              index_repr h0 h' fd (record_failure F device nbr p)"
proof -
  from assms(1) obtain a where fd: "fd = HRef a" and a: "length h0 \<le> a" "a < length h"
    and d: "distinct (map snd (h ! a))"
    and l: "list_all2 (\<lambda>kv ke. fst kv = fst ke \<and> entry_repr h0 h a (snd kv) (snd ke)) (h ! a) F"
    by (auto simp: index_repr_def)
  let ?h1 = "h @ [[]]"
  have h1a: "?h1 ! a = h ! a"
    using a by (simp add: nth_append)
  show ?thesis
  proof (cases "map_of (h ! a) device")
    case None
    let ?h3 = "?h1[a := h ! a @ [(device, HRef (length h))], length h := [(nbr, props)]]"
    from None a have run: "record_failure_store h fd device nbr props = (?h3, Inr ())"
      by (simp add: record_failure_store_def store_new_def store_setdefault_def
            store_setitem_def fd h1a)
    from keyed_map_of_None [OF l None] have F: "map_of F device = None" .
    then have rf: "record_failure F device nbr p = F @ [(device, [(nbr, p)])]"
      by (simp add: record_failure_def dict_setdefault_def dict_setitem_append_new)
    have at: "?h3 ! a = h ! a @ [(device, HRef (length h))]"
      using a by simp
    have old: "list_all2 (\<lambda>kv ke. fst kv = fst ke \<and> entry_repr h0 ?h3 a (snd kv) (snd ke)) (h ! a) F"
      by (rule list_all2_mono [OF l]) (auto simp: entry_repr_def nth_append)
    have new: "entry_repr h0 ?h3 a (HRef (length h)) [(nbr, p)]"
      using a assms(2)
      by (auto simp: entry_repr_def intro!: repr_repr_list_repr_items.intros)
    have "HRef (length h) \<notin> snd ` set (h ! a)"
    proof
      assume "HRef (length h) \<in> snd ` set (h ! a)"
      then obtain kv where "kv \<in> set (h ! a)" "snd kv = HRef (length h)"
        by auto
      with l obtain ke where "entry_repr h0 h a (HRef (length h)) (snd ke)"
        by (auto simp: list_all2_conv_all_nth in_set_conv_nth)
      then show False
        by (simp add: entry_repr_def)
    qed
    with d have d3: "distinct (map snd (h ! a @ [(device, HRef (length h))]))"
      by simp
    from old new have "list_all2 (\<lambda>kv ke. fst kv = fst ke \<and> entry_repr h0 ?h3 a (snd kv) (snd ke))
        (h ! a @ [(device, HRef (length h))]) (F @ [(device, [(nbr, p)])])"
      by (simp add: list_all2_appendI)
    with a d3 have "index_repr h0 ?h3 fd (F @ [(device, [(nbr, p)])])"
      unfolding index_repr_def fd at by simp
    with run rf show ?thesis
      by simp
  next
    case (Some w)
    from keyed_map_of_Some [OF l Some] obtain ip where
      ip: "map_of F device = Some ip" and e: "entry_repr h0 h a w ip"
      by blast
    from e obtain b where w: "w = HRef b" and b: "a < b" "b < length h"
      by (auto simp: entry_repr_def)
    let ?h3 = "?h1[b := dict_setitem (h ! b) nbr props]"
    have h1b: "?h1 ! b = h ! b"
      using b by (simp add: nth_append)
    from Some a b have run: "record_failure_store h fd device nbr props = (?h3, Inr ())"
      by (simp add: record_failure_store_def store_new_def store_setdefault_def
            store_setitem_def fd h1a w h1b)
    from ip have rf: "record_failure F device nbr p = dict_setitem F device (dict_setitem ip nbr p)"
      by (simp add: record_failure_def dict_setdefault_def)
    have at: "?h3 ! a = h ! a"
      using a b by (simp add: nth_append)
    have "list_all2 (\<lambda>kv ke. fst kv = fst ke \<and> entry_repr h0 ?h3 a (snd kv) (snd ke)) (h ! a)
            (dict_setitem F device (dict_setitem ip nbr p))"
    proof (rule keyed_setitem [OF l d Some ip])
      fix x y
      assume "x \<noteq> w" and "entry_repr h0 h a x y"
      then show "entry_repr h0 ?h3 a x y"
        by (auto simp: entry_repr_def w nth_append)
    next
      fix y
      assume "entry_repr h0 h a w y"
      with b assms(2) show "entry_repr h0 ?h3 a w (dict_setitem y nbr p)"
        by (auto simp: entry_repr_def w repr_items_setitem)
    qed
    with a b d have "index_repr h0 ?h3 fd (dict_setitem F device (dict_setitem ip nbr p))"
      by (simp add: index_repr_def fd nth_append)
    with run rf show ?thesis
      by simp
  qed
qed

section \<open>The store model computes what the first model computes\<close>

lemma nbr_loop_store_refines:
  "extends h0 h \<Longrightarrow> repr_items h0 ns pns \<Longrightarrow> index_repr h0 h fd (failed_dict st) \<Longrightarrow>
   nbr_loop_store device vrf_name ns fd (results_table st) h = (h', r) \<Longrightarrow>
     extends h0 h' \<and>
     (case nbr_loop device vrf_name pns st of
        Inl e \<Rightarrow> r = Inl e
      | Inr st' \<Rightarrow> r = Inr (results_table st') \<and> index_repr h0 h' fd (failed_dict st'))"
proof (induction ns arbitrary: pns st h)
  case Nil
  then show ?case
    by (simp add: repr_items_Nil_iff)
next
  case (Cons np ns)
  obtain nbr props where np: "np = (nbr, props)" by (cases np)
  from Cons.prems(2) np obtain p pns' where pns: "pns = (nbr, p) # pns'"
    and p: "repr h0 props p" and rest: "repr_items h0 ns pns'"
    by (auto simp: repr_items_Cons_iff)
  note s = neighbor_state_store_refines [OF Cons.prems(1) p]
  show ?case
  proof (cases "neighbor_state p")
    case (Inl e)
    with Cons.prems(1,4) s show ?thesis
      by (simp add: np pns)
  next
    case (Inr state)
    let ?row = "[vrf_name, nbr, str_capitalize state, verdict state]"
    show ?thesis
    proof (cases "verdict state = ''Failed''")
      case True
      let ?st1 = "st\<lparr>failed_dict := record_failure (failed_dict st) device nbr p,
                     results_table := results_table st @ [?row]\<rparr>"
      from record_failure_store_refines [OF Cons.prems(3) p, of device nbr]
      obtain h1 where run: "record_failure_store h fd device nbr props = (h1, Inr ())"
        and i1: "index_repr h0 h1 fd (record_failure (failed_dict st) device nbr p)"
        by blast
      from record_failure_store_frame [OF index_repr_fresh [OF Cons.prems(3)] run]
      have "take (length h0) h1 = take (length h0) h"
        by simp
      with Cons.prems(1) have e1: "extends h0 h1"
        by (rule extends_take)
      from Cons.prems(4) s Inr True run
      have call: "nbr_loop_store device vrf_name ns fd (results_table ?st1) h1 = (h', r)"
        by (simp add: np Let_def)
      have i1': "index_repr h0 h1 fd (failed_dict ?st1)"
        using i1 by simp
      have v: "nbr_loop device vrf_name pns st = nbr_loop device vrf_name pns' ?st1"
        using Inr True by (simp add: pns Let_def)
      from Cons.IH [OF e1 rest i1' call] show ?thesis
        unfolding v .
    next
      case False
      let ?st1 = "st\<lparr>results_table := results_table st @ [?row]\<rparr>"
      from Cons.prems(4) s Inr False
      have call: "nbr_loop_store device vrf_name ns fd (results_table ?st1) h = (h', r)"
        by (simp add: np Let_def)
      have i1': "index_repr h0 h fd (failed_dict ?st1)"
        using Cons.prems(3) by simp
      have v: "nbr_loop device vrf_name pns st = nbr_loop device vrf_name pns' ?st1"
        using Inr False by (simp add: pns Let_def)
      from Cons.IH [OF Cons.prems(1) rest i1' call] show ?thesis
        unfolding v .
    qed
  qed
qed

lemma vrf_loop_store_refines:
  "extends h0 h \<Longrightarrow> repr_items h0 vrfs pvrfs \<Longrightarrow> index_repr h0 h fd (failed_dict st) \<Longrightarrow>
   vrf_loop_store device vrfs fd (results_table st) h = (h', r) \<Longrightarrow>
     extends h0 h' \<and>
     (case vrf_loop device pvrfs st of
        Inl e \<Rightarrow> r = Inl e
      | Inr st' \<Rightarrow> r = Inr (results_table st') \<and> index_repr h0 h' fd (failed_dict st'))"
proof (induction vrfs arbitrary: pvrfs st h)
  case Nil
  then show ?case
    by (simp add: repr_items_Nil_iff)
next
  case (Cons v vrfs)
  obtain vrf_name vrf_data where v: "v = (vrf_name, vrf_data)" by (cases v)
  from Cons.prems(2) v obtain p pvrfs' where pvrfs: "pvrfs = (vrf_name, p) # pvrfs'"
    and p: "repr h0 vrf_data p" and rest: "repr_items h0 vrfs pvrfs'"
    by (auto simp: repr_items_Cons_iff)
  obtain h1 r1 where s1: "vrf_neighbors_store h vrf_data = (h1, r1)"
    by (cases "vrf_neighbors_store h vrf_data")
  from vrf_neighbors_store_refines [OF Cons.prems(1) p s1]
  have h1: "h1 = h @ [[]]" and rel: "rel_sum (=) (repr_items h0) r1 (vrf_neighbors p)"
    by simp_all
  have e1: "extends h0 h1"
    unfolding h1 using Cons.prems(1) by (rule extends_append)
  have i1: "index_repr h0 h1 fd (failed_dict st)"
    unfolding h1 using Cons.prems(3) by (rule index_repr_append)
  show ?case
  proof (cases r1)
    case (Inl e)
    with rel have "vrf_neighbors p = Inl e"
      by (cases "vrf_neighbors p") simp_all
    with Cons.prems(4) s1 Inl e1 show ?thesis
      by (auto simp: v pvrfs)
  next
    case (Inr ns)
    with rel obtain pns where pns: "vrf_neighbors p = Inr pns" "repr_items h0 ns pns"
      by (cases "vrf_neighbors p") simp_all
    obtain h2 r2 where s2: "nbr_loop_store device vrf_name ns fd (results_table st) h1 = (h2, r2)"
      by (cases "nbr_loop_store device vrf_name ns fd (results_table st) h1")
    from nbr_loop_store_refines [OF e1 pns(2) i1 s2]
    have e2: "extends h0 h2"
      and c2: "case nbr_loop device vrf_name pns st of
                 Inl e \<Rightarrow> r2 = Inl e
               | Inr st' \<Rightarrow> r2 = Inr (results_table st') \<and> index_repr h0 h2 fd (failed_dict st')"
      by simp_all
    show ?thesis
    proof (cases "nbr_loop device vrf_name pns st")
      case (Inl e)
      with c2 have "r2 = Inl e" by simp
      with Cons.prems(4) s1 s2 Inr Inl pns(1) e2 show ?thesis
        by (auto simp: v pvrfs)
    next
      case st1: (Inr st1)
      with c2 have r2: "r2 = Inr (results_table st1)" and i2: "index_repr h0 h2 fd (failed_dict st1)"
        by simp_all
      from Cons.prems(4) s1 s2 Inr r2
      have call: "vrf_loop_store device vrfs fd (results_table st1) h2 = (h', r)"
        by (simp add: v)
      have val: "vrf_loop device pvrfs st = vrf_loop device pvrfs' st1"
        using pns(1) st1 by (simp add: pvrfs)
      from Cons.IH [OF e2 rest i2 call] show ?thesis
        unfolding val .
    qed
  qed
qed

lemma device_loop_store_refines:
  "extends h0 h \<Longrightarrow> repr_items h0 sessions psessions \<Longrightarrow> index_repr h0 h fd (failed_dict st) \<Longrightarrow>
   device_loop_store sessions fd (results_table st) h = (h', r) \<Longrightarrow>
     extends h0 h' \<and>
     (case device_loop psessions st of
        Inl e \<Rightarrow> r = Inl e
      | Inr st' \<Rightarrow> r = Inr (results_table st') \<and> index_repr h0 h' fd (failed_dict st'))"
proof (induction sessions arbitrary: psessions st h)
  case Nil
  then show ?case
    by (simp add: repr_items_Nil_iff)
next
  case (Cons s sessions)
  obtain device bgp_info where s: "s = (device, bgp_info)" by (cases s)
  from Cons.prems(2) s obtain p psessions' where ps: "psessions = (device, p) # psessions'"
    and p: "repr h0 bgp_info p" and rest: "repr_items h0 sessions psessions'"
    by (auto simp: repr_items_Cons_iff)
  obtain h1 r1 where s1: "device_vrfs_store h bgp_info = (h1, r1)"
    by (cases "device_vrfs_store h bgp_info")
  from device_vrfs_store_refines [OF Cons.prems(1) p s1]
  have rel: "rel_sum (=) (repr_items h0) r1 (device_vrfs p)" .
  from device_vrfs_store_frame [OF s1] obtain xs where h1: "h1 = h @ xs"
    by blast
  have e1: "extends h0 h1"
    unfolding h1 using Cons.prems(1) by (rule extends_append)
  have i1: "index_repr h0 h1 fd (failed_dict st)"
    unfolding h1 using Cons.prems(3) by (rule index_repr_append)
  show ?case
  proof (cases r1)
    case (Inl e)
    with rel have "device_vrfs p = Inl e"
      by (cases "device_vrfs p") simp_all
    with Cons.prems(4) s1 Inl e1 show ?thesis
      by (auto simp: s ps)
  next
    case (Inr vrfs)
    with rel obtain pvrfs where pvrfs: "device_vrfs p = Inr pvrfs" "repr_items h0 vrfs pvrfs"
      by (cases "device_vrfs p") simp_all
    obtain h2 r2 where s2: "vrf_loop_store device vrfs fd (results_table st) h1 = (h2, r2)"
      by (cases "vrf_loop_store device vrfs fd (results_table st) h1")
    from vrf_loop_store_refines [OF e1 pvrfs(2) i1 s2]
    have e2: "extends h0 h2"
      and c2: "case vrf_loop device pvrfs st of
                 Inl e \<Rightarrow> r2 = Inl e
               | Inr st' \<Rightarrow> r2 = Inr (results_table st') \<and> index_repr h0 h2 fd (failed_dict st')"
      by simp_all
    show ?thesis
    proof (cases "vrf_loop device pvrfs st")
      case (Inl e)
      with c2 have "r2 = Inl e" by simp
      with Cons.prems(4) s1 s2 Inr Inl pvrfs(1) e2 show ?thesis
        by (auto simp: s ps)
    next
      case st1: (Inr st1)
      let ?st2 = "st1\<lparr>log := log st1 @
                    [LogInfo (''Device '' @ device @ '' BGP Neighbors:'' @ [CHR 0x0A]),
                     LogTable table_headers (results_table st1)]\<rparr>"
      from st1 c2 have r2: "r2 = Inr (results_table st1)"
        and i2: "index_repr h0 h2 fd (failed_dict st1)"
        by simp_all
      from Cons.prems(4) s1 s2 Inr r2
      have call: "device_loop_store sessions fd (results_table ?st2) h2 = (h', r)"
        by (simp add: s)
      have i2': "index_repr h0 h2 fd (failed_dict ?st2)"
        using i2 by simp
      have val: "device_loop psessions st = device_loop psessions' ?st2"
        using pvrfs(1) st1 by (simp add: ps)
      from Cons.IH [OF e2 rest i2' call] show ?thesis
        unfolding val .
    qed
  qed
qed

lemma check_bgp_store_refines:
  assumes "repr h all_bgp_sessions (PDict sessions)"
    and "check_bgp_store h all_bgp_sessions = (h', r)"
  shows "case check_bgp sessions of
           Inl e \<Rightarrow> r = Inl e
         | Inr (st, sig) \<Rightarrow>
             (\<exists>fd. r = Inr (fd, results_table st, sig) \<and> index_repr h h' fd (failed_dict st))"
proof -
  let ?h1 = "h @ [[]]"
  let ?fd = "HRef (length h)"
  let ?st0 = "\<lparr>failed_dict = [], results_table = [], log = []\<rparr>"
  from assms(1) obtain s where S: "all_bgp_sessions = HRef s" and s: "s < length h"
    and items: "repr_items h (h ! s) sessions"
    by (auto simp: repr_HRef_iff elim: repr.cases)
  have e1: "extends h ?h1"
    by (rule extends_append [OF extends_refl])
  have i1: "index_repr h ?h1 ?fd (failed_dict ?st0)"
    by (simp add: index_repr_def)
  from s have it: "store_items ?h1 all_bgp_sessions = Inr (h ! s)"
    by (simp add: store_items_def store_dict_def S nth_append)
  obtain h2 r2 where s2: "device_loop_store (h ! s) ?fd (results_table ?st0) ?h1 = (h2, r2)"
    by (cases "device_loop_store (h ! s) ?fd (results_table ?st0) ?h1")
  from device_loop_store_refines [OF e1 items i1 s2]
  have c2: "case device_loop sessions ?st0 of
              Inl e \<Rightarrow> r2 = Inl e
            | Inr st' \<Rightarrow> r2 = Inr (results_table st') \<and> index_repr h h2 ?fd (failed_dict st')"
    by simp
  show ?thesis
  proof (cases "device_loop sessions ?st0")
    case (Inl e)
    with c2 have "r2 = Inl e" by simp
    with assms(2) it s2 Inl show ?thesis
      by (auto simp: check_bgp_store_def check_bgp_def store_new_def)
  next
    case (Inr st)
    with c2 have r2: "r2 = Inr (results_table st)" and i2: "index_repr h h2 ?fd (failed_dict st)"
      by simp_all
    from i2 have a: "length h < length h2"
      and l: "list_all2 (\<lambda>kv ke. fst kv = fst ke \<and> entry_repr h h2 (length h) (snd kv) (snd ke))
                (h2 ! length h) (failed_dict st)"
      by (auto simp: index_repr_def)
    from l have "(h2 ! length h = []) = (failed_dict st = [])"
      by (cases "h2 ! length h"; cases "failed_dict st") simp_all
    with a have t: "(store_dict h2 ?fd \<noteq> Some []) = (failed_dict st \<noteq> [])"
      by (simp add: store_dict_def)
    from assms(2) it s2 r2 have h': "h' = h2"
      and r: "r = Inr (?fd, results_table st,
                 if store_dict h2 ?fd \<noteq> Some []
                 then AEtestFailedSignal ''Some BGP neighbors are not established.'' []
                 else AEtestPassedSignal ''All BGP neighbors are established.'')"
      by (auto simp: check_bgp_store_def store_new_def)
    show ?thesis
    proof (cases "failed_dict st = []")
      case True
      with Inr r t h' i2 show ?thesis
        by (simp add: check_bgp_def)
    next
      case False
      with Inr r t h' i2 show ?thesis
        by (simp add: check_bgp_def)
    qed
  qed
qed

lemma keyed_repr_items:
  "list_all2 (\<lambda>kv ke. fst kv = fst ke \<and> repr h (snd kv) (PDict (snd ke))) xs F \<Longrightarrow>
     repr_items h xs (map (\<lambda>e. (fst e, PDict (snd e))) F)"
proof (induction xs F rule: list_all2_induct)
  case Nil
  then show ?case by (simp add: repr_items_Nil)
next
  case (Cons x xs y ys)
  then show ?case
    by (cases x) (auto intro: repr_items_Cons)
qed

lemma index_repr_value:
  assumes "extends h0 h" and "index_repr h0 h fd F"
  shows "repr h fd (index_value F)"
proof -
  from assms(2) obtain a where fd: "fd = HRef a" and a: "a < length h"
    and l: "list_all2 (\<lambda>kv ke. fst kv = fst ke \<and> entry_repr h0 h a (snd kv) (snd ke)) (h ! a) F"
    by (auto simp: index_repr_def)
  have "list_all2 (\<lambda>kv ke. fst kv = fst ke \<and> repr h (snd kv) (PDict (snd ke))) (h ! a) F"
  proof (rule list_all2_mono [OF l])
    fix kv ke
    assume "fst kv = fst ke \<and> entry_repr h0 h a (snd kv) (snd ke)"
    then obtain b where k: "fst kv = fst ke" and b: "snd kv = HRef b" "b < length h"
      and r: "repr_items h0 (h ! b) (snd ke)"
      by (auto simp: entry_repr_def)
    from repr_mono(3) [OF assms(1) r] b
    have "repr h (snd kv) (PDict (snd ke))"
      by (simp add: repr_Dict)
    with k show "fst kv = fst ke \<and> repr h (snd kv) (PDict (snd ke))"
      by simp
  qed
  from keyed_repr_items [OF this] a show ?thesis
    by (simp add: fd index_value_def repr_Dict)
qed

lemma repr_items_mem:
  "repr_items h d d' \<Longrightarrow> (k, v) \<in> set d \<Longrightarrow> \<exists>p. repr h v p"
  by (induction d arbitrary: d') (auto simp: repr_items_Nil_iff repr_items_Cons_iff)

lemma check_bgp_store_example:
  "check_bgp_store example_store (HRef 0) =
     (example_store_after,
      Inr (HRef 15, example_rows,
           AEtestFailedSignal ''Some BGP neighbors are not established.'' []))"
  by (simp add: example_store_after_def example_store_def example_rows_def
        check_bgp_store_def device_vrfs_store_def vrf_neighbors_store_def
        neighbor_state_store_def record_failure_store_def store_new_def store_dict_def
        store_get_def store_items_def store_lower_def store_setdefault_def store_setitem_def
        verdict_def Let_def str_lower_def str_capitalize_def lower_chr_def upper_chr_def
        ascii_lowercase_def ascii_uppercase_def)

lemma repr_example_store: "repr example_store (HRef 0) (PDict two_devices)"
  by (simp add: example_store_def two_devices_def bgp_snapshot_def
        repr_HRef_iff repr_items_Cons_iff repr_items_Nil_iff repr_HStr_iff)

section \<open>The claims\<close>

text \<open>
  Claim C1 says that a connection failure of one device never aborts the connection
  stage: the device is marked failed, every remaining device is still attempted, and the
  devices that connected are passed on. On the inventory \<open>[R2, R1]\<close>, where \<open>R2\<close> does not
  connect and \<open>R1\<close> would, \<^verbatim>\<open>connect\<close> ends with the failure of \<open>R2\<close> (the message holds
  its name and the error text), \<open>R1\<close> is never attempted (the log holds no banner for it),
  and \<^verbatim>\<open>parameters['devices']\<close> is not set.
\<close>

theorem connect_stops_at_first_failure:
  "connect [R2, R1] \<lparr>testbed = None, devices = None\<rparr> =
     (\<lparr>testbed = Some [R2, R1], devices = None\<rparr>,
      [LogBanner (''Connecting to device '' @ quoted ''R2'')],
      Some (AEtestFailedSignal
             (''Failed to establish connection to '' @ quoted ''R2'' @ '': timed out'') []))"
  by (simp add: connect_def R1_def R2_def)

text \<open>
  Claim C2 says that the table logged for a device holds exactly the rows of that
  device's neighbours. With two devices of one neighbour each, the table logged after the
  header of \<open>R2\<close> holds two rows, the first of them the row of the neighbour of \<open>R1\<close>; the
  neighbours of \<open>R2\<close> give one row.
\<close>

theorem second_table_holds_first_device_rows:
  "\<exists>st sig.
     check_bgp
       [(''R1'', bgp_snapshot [(''default'', [(''10.0.0.1'', ''Established'')])]),
        (''R2'', bgp_snapshot [(''default'', [(''10.0.0.2'', ''Idle'')])])] = Inr (st, sig) \<and>
     log st ! 2 = LogInfo (''Device R2 BGP Neighbors:'' @ [CHR 0x0A]) \<and>
     log st ! 3 =
       LogTable [''VRF'', ''Peer'', ''State'', ''Result'']
         [[''default'', ''10.0.0.1'', ''Established'', ''Passed''],
          [''default'', ''10.0.0.2'', ''Idle'', ''Failed'']] \<and>
     map neighbor_row (device_neighbors (bgp_snapshot [(''default'', [(''10.0.0.2'', ''Idle'')])])) =
       [[''default'', ''10.0.0.2'', ''Idle'', ''Failed'']]"
proof -
  have "map neighbor_row (device_neighbors (bgp_snapshot [(''default'', [(''10.0.0.2'', ''Idle'')])])) =
       [[''default'', ''10.0.0.2'', ''Idle'', ''Failed'']]"
    by (simp add: device_neighbors_def vrf_neighbors_list_def neighbor_row_def state_of_def eval_defs)
  with check_bgp_two_devices show ?thesis
    by (simp add: two_devices_def two_devices_result_def table_headers_def)
qed

text \<open>
  Claim C3: the verdict rule. The loop body, run on one neighbour whose attributes are the
  dictionary \<open>d\<close>, from any state \<open>st\<close>, returns \<open>st\<close> with exactly one row appended:

    \<^item> without the field \<open>session_state\<close> the row shows the state \<open>Unknown\<close> and the verdict
      \<open>Failed\<close>, and the neighbour is recorded in the failure dictionary;
    \<^item> with a string that differs from \<open>established\<close> at most in the case of its letters the
      row shows \<open>Established\<close> and \<open>Passed\<close>, and the failure dictionary is untouched;
    \<^item> with any other string the verdict is \<open>Failed\<close> and the neighbour is recorded; the
      state shown is the string in lower case with a capital first letter, which is stated
      for ASCII strings, the strings on which \<open>str_lower\<close> and \<open>str_capitalize\<close> are Python's
      methods;
    \<^item> a state that is not a string raises \<^verbatim>\<open>AttributeError\<close>.

  A string that passes is ASCII, so every state with a character outside ASCII fails.
  The loop over a list of neighbours is this run on the first neighbour, followed by the
  loop over the others from the state it returned, and over no neighbour it returns the
  state as it is: the rule holds for every neighbour. \<open>Established\<close>, \<open>ESTABLISHED\<close> and
  \<open>established\<close> pass; \<open>idle\<close>, \<open>active\<close>, the empty string and \<open>Unknown\<close> do not.
\<close>

theorem verdict_rule:
  "(map_of d ''session_state'' = None \<longrightarrow>
      nbr_loop device vrf_name [(nbr, PDict d)] st =
        Inr (st\<lparr>failed_dict := record_failure (failed_dict st) device nbr (PDict d),
               results_table := results_table st @ [[vrf_name, nbr, ''Unknown'', ''Failed'']]\<rparr>)) \<and>
   (map_of d ''session_state'' = Some (PStr s) \<and> case_variant s ''established'' \<longrightarrow>
      nbr_loop device vrf_name [(nbr, PDict d)] st =
        Inr (st\<lparr>results_table :=
                 results_table st @ [[vrf_name, nbr, ''Established'', ''Passed'']]\<rparr>)) \<and>
   (map_of d ''session_state'' = Some (PStr s) \<and> \<not> case_variant s ''established'' \<longrightarrow>
      (\<exists>state.
         nbr_loop device vrf_name [(nbr, PDict d)] st =
           Inr (st\<lparr>failed_dict := record_failure (failed_dict st) device nbr (PDict d),
                  results_table := results_table st @ [[vrf_name, nbr, state, ''Failed'']]\<rparr>) \<and>
         (isascii s \<longrightarrow> state = str_capitalize (str_lower s)))) \<and>
   (map_of d ''session_state'' = Some v \<and> (\<forall>s. v \<noteq> PStr s) \<longrightarrow>
      nbr_loop device vrf_name [(nbr, PDict d)] st = Inl AttributeError) \<and>
   (case_variant s ''established'' \<longrightarrow> isascii s) \<and>
   nbr_loop device vrf_name [] st = Inr st \<and>
   nbr_loop device vrf_name ((nbr, props) # rest) st =
     (case nbr_loop device vrf_name [(nbr, props)] st of
        Inl e \<Rightarrow> Inl e
      | Inr st' \<Rightarrow> nbr_loop device vrf_name rest st') \<and>
   case_variant ''Established'' ''established'' \<and>
   case_variant ''ESTABLISHED'' ''established'' \<and>
   case_variant ''established'' ''established'' \<and>
   \<not> case_variant ''idle'' ''established'' \<and>
   \<not> case_variant ''active'' ''established'' \<and>
   \<not> case_variant [] ''established'' \<and>
   \<not> case_variant ''Unknown'' ''established''"
proof -
  have unknown: "str_lower ''Unknown'' = ''unknown''" "str_capitalize ''unknown'' = ''Unknown''"
    "str_capitalize ''established'' = ''Established''"
    by (simp_all add: str_lower_def str_capitalize_def lower_chr_def upper_chr_def
          ascii_uppercase_def ascii_lowercase_def)
  have missing: "nbr_loop device vrf_name [(nbr, PDict d)] st =
        Inr (st\<lparr>failed_dict := record_failure (failed_dict st) device nbr (PDict d),
               results_table := results_table st @ [[vrf_name, nbr, ''Unknown'', ''Failed'']]\<rparr>)"
    if "map_of d ''session_state'' = None"
    using that by (simp add: neighbor_state_def unknown verdict_def Let_def)
  have passed: "nbr_loop device vrf_name [(nbr, PDict d)] st =
        Inr (st\<lparr>results_table :=
                 results_table st @ [[vrf_name, nbr, ''Established'', ''Passed'']]\<rparr>)"
    if "map_of d ''session_state'' = Some (PStr s)" and "case_variant s ''established''"
  proof -
    from that(2) have "str_lower s = ''established''"
      by (simp add: str_lower_established_iff)
    with that(1) show ?thesis
      by (simp add: neighbor_state_def unknown verdict_def Let_def)
  qed
  have failed: "\<exists>state.
         nbr_loop device vrf_name [(nbr, PDict d)] st =
           Inr (st\<lparr>failed_dict := record_failure (failed_dict st) device nbr (PDict d),
                  results_table := results_table st @ [[vrf_name, nbr, state, ''Failed'']]\<rparr>) \<and>
         (isascii s \<longrightarrow> state = str_capitalize (str_lower s))"
    if "map_of d ''session_state'' = Some (PStr s)" and "\<not> case_variant s ''established''"
  proof -
    from that(2) have "str_lower s \<noteq> ''established''"
      by (simp add: str_lower_established_iff)
    with that(1) have "nbr_loop device vrf_name [(nbr, PDict d)] st =
           Inr (st\<lparr>failed_dict := record_failure (failed_dict st) device nbr (PDict d),
                  results_table :=
                    results_table st @
                    [[vrf_name, nbr, str_capitalize (str_lower s), ''Failed'']]\<rparr>)"
      by (simp add: neighbor_state_def verdict_def Let_def)
    then show ?thesis
      by blast
  qed
  have raised: "nbr_loop device vrf_name [(nbr, PDict d)] st = Inl AttributeError"
    if "map_of d ''session_state'' = Some v" and "\<forall>s. v \<noteq> PStr s"
    using that by (cases v) (simp_all add: neighbor_state_def)
  have nil: "nbr_loop device vrf_name [] st = Inr st"
    by simp
  have step: "nbr_loop device vrf_name ((nbr, props) # rest) st =
     (case nbr_loop device vrf_name [(nbr, props)] st of
        Inl e \<Rightarrow> Inl e
      | Inr st' \<Rightarrow> nbr_loop device vrf_name rest st')"
    by (cases "neighbor_state props") (simp_all add: Let_def)
  have ex: "case_variant ''Established'' ''established''"
    "case_variant ''ESTABLISHED'' ''established''"
    "case_variant ''established'' ''established''"
    "\<not> case_variant ''idle'' ''established''"
    "\<not> case_variant ''active'' ''established''"
    "\<not> case_variant [] ''established''"
    "\<not> case_variant ''Unknown'' ''established''"
    by (simp_all add: case_variant_def upper_established)
  show ?thesis
    by (intro conjI impI; (elim conjE)?)
       (rule missing passed failed raised established_isascii nil step ex; assumption)+
qed

text \<open>
  The rule on four neighbours of \<open>R1\<close>: one without the field, one \<open>ESTABLISHED\<close>, one
  \<open>IDLE\<close> and one whose state is \<^verbatim>\<open>None\<close>.
\<close>

theorem verdict_rule_witness:
  "map_of [] ''session_state'' = (None :: pyval option) \<and>
   nbr_loop ''R1'' ''default'' [(''10.0.0.3'', PDict [])]
       \<lparr>failed_dict = [], results_table = [], log = []\<rparr> =
     Inr \<lparr>failed_dict = [(''R1'', [(''10.0.0.3'', PDict [])])],
          results_table = [[''default'', ''10.0.0.3'', ''Unknown'', ''Failed'']], log = []\<rparr> \<and>
   map_of [(''session_state'', PStr ''ESTABLISHED'')] ''session_state'' =
     Some (PStr ''ESTABLISHED'') \<and>
   case_variant ''ESTABLISHED'' ''established'' \<and> isascii ''ESTABLISHED'' \<and>
   nbr_loop ''R1'' ''default''
       [(''10.0.0.1'', PDict [(''session_state'', PStr ''ESTABLISHED'')])]
       \<lparr>failed_dict = [], results_table = [], log = []\<rparr> =
     Inr \<lparr>failed_dict = [],
          results_table = [[''default'', ''10.0.0.1'', ''Established'', ''Passed'']], log = []\<rparr> \<and>
   map_of [(''session_state'', PStr ''IDLE'')] ''session_state'' = Some (PStr ''IDLE'') \<and>
   \<not> case_variant ''IDLE'' ''established'' \<and> isascii ''IDLE'' \<and>
   nbr_loop ''R1'' ''default''
       [(''10.0.0.2'', PDict [(''session_state'', PStr ''IDLE'')])]
       \<lparr>failed_dict = [], results_table = [], log = []\<rparr> =
     Inr \<lparr>failed_dict = [(''R1'', [(''10.0.0.2'', PDict [(''session_state'', PStr ''IDLE'')])])],
          results_table = [[''default'', ''10.0.0.2'', ''Idle'', ''Failed'']], log = []\<rparr> \<and>
   map_of [(''session_state'', PNone)] ''session_state'' = Some PNone \<and>
   nbr_loop ''R1'' ''default'' [(''10.0.0.4'', PDict [(''session_state'', PNone)])]
       \<lparr>failed_dict = [], results_table = [], log = []\<rparr> =
     Inl AttributeError"
proof -
  let ?st = "\<lparr>failed_dict = [], results_table = [], log = []\<rparr>"
  have h1: "map_of [] ''session_state'' = (None :: pyval option)"
    by simp
  have h2: "map_of [(''session_state'', PStr ''ESTABLISHED'')] ''session_state'' =
              Some (PStr ''ESTABLISHED'')"
    by simp
  have h3: "case_variant ''ESTABLISHED'' ''established''"
    by (simp add: case_variant_def upper_established)
  have h4: "map_of [(''session_state'', PStr ''IDLE'')] ''session_state'' = Some (PStr ''IDLE'')"
    by simp
  have h5: "\<not> case_variant ''IDLE'' ''established''"
    by (simp add: case_variant_def)
  have h6: "isascii ''IDLE''"
    by (simp add: isascii_def)
  have h7: "map_of [(''session_state'', PNone)] ''session_state'' = Some PNone"
    by simp
  have h8: "\<forall>s. PNone \<noteq> PStr s"
    by simp
  have c: "str_capitalize (str_lower ''IDLE'') = ''Idle''"
    by (simp add: str_lower_def str_capitalize_def lower_chr_def upper_chr_def
          ascii_uppercase_def ascii_lowercase_def)
  have r: "record_failure [] ''R1'' n p = [(''R1'', [(n, p)])]" for n p
    by (simp add: record_failure_def dict_setdefault_def)
  note m = verdict_rule [where d = "[]" and device = "''R1''" and vrf_name = "''default''"
      and nbr = "''10.0.0.3''" and st = ?st, THEN conjunct1, THEN mp, OF h1]
  have a: "nbr_loop ''R1'' ''default'' [(''10.0.0.3'', PDict [])] ?st =
     Inr \<lparr>failed_dict = [(''R1'', [(''10.0.0.3'', PDict [])])],
          results_table = [[''default'', ''10.0.0.3'', ''Unknown'', ''Failed'']], log = []\<rparr>"
    using m by (simp add: r)
  note p = verdict_rule [where d = "[(''session_state'', PStr ''ESTABLISHED'')]"
      and s = "''ESTABLISHED''" and device = "''R1''" and vrf_name = "''default''"
      and nbr = "''10.0.0.1''" and st = ?st,
      THEN conjunct2, THEN conjunct1, THEN mp, OF conjI [OF h2 h3]]
  have b: "nbr_loop ''R1'' ''default''
       [(''10.0.0.1'', PDict [(''session_state'', PStr ''ESTABLISHED'')])] ?st =
     Inr \<lparr>failed_dict = [],
          results_table = [[''default'', ''10.0.0.1'', ''Established'', ''Passed'']], log = []\<rparr>"
    using p by simp
  from verdict_rule [where d = "[(''session_state'', PStr ''IDLE'')]"
      and s = "''IDLE''" and device = "''R1''" and vrf_name = "''default''"
      and nbr = "''10.0.0.2''" and st = ?st,
      THEN conjunct2, THEN conjunct2, THEN conjunct1, THEN mp, OF conjI [OF h4 h5]] h6
  obtain state where
    "nbr_loop ''R1'' ''default''
       [(''10.0.0.2'', PDict [(''session_state'', PStr ''IDLE'')])] ?st =
     Inr (?st\<lparr>failed_dict :=
              record_failure (failed_dict ?st) ''R1'' ''10.0.0.2''
                (PDict [(''session_state'', PStr ''IDLE'')]),
            results_table :=
              results_table ?st @ [[''default'', ''10.0.0.2'', state, ''Failed'']]\<rparr>)"
    and "state = str_capitalize (str_lower ''IDLE'')"
    by blast
  then have f: "nbr_loop ''R1'' ''default''
       [(''10.0.0.2'', PDict [(''session_state'', PStr ''IDLE'')])] ?st =
     Inr \<lparr>failed_dict = [(''R1'', [(''10.0.0.2'', PDict [(''session_state'', PStr ''IDLE'')])])],
          results_table = [[''default'', ''10.0.0.2'', ''Idle'', ''Failed'']], log = []\<rparr>"
    by (simp add: r c)
  note e = verdict_rule [where d = "[(''session_state'', PNone)]" and v = PNone
      and device = "''R1''" and vrf_name = "''default''" and nbr = "''10.0.0.4''"
      and st = ?st,
      THEN conjunct2, THEN conjunct2, THEN conjunct2, THEN conjunct1, THEN mp,
      OF conjI [OF h7 h8]]
  note i = verdict_rule [where s = "''ESTABLISHED''",
      THEN conjunct2, THEN conjunct2, THEN conjunct2, THEN conjunct2, THEN conjunct1,
      THEN mp, OF h3]
  show ?thesis
    by (intro conjI; fact)
qed

text \<open>
  Claim C4: the failure dictionary is exact. When \<^verbatim>\<open>check_bgp\<close> returns (the device names
  being the keys of a dictionary, hence distinct), a device has an entry in
  \<^verbatim>\<open>failed_dict\<close> if and only if one of its neighbours failed; the keys of the entry are
  exactly the addresses of the neighbours of that device that failed, and the attributes
  stored under an address are those of a failed neighbour with that address.
\<close>

theorem failure_index_exact:
  assumes "check_bgp sessions = Inr (st, sig)" and "distinct (map fst sessions)"
  shows "(device \<in> fst ` set (failed_dict st) \<longleftrightarrow>
            (\<exists>bgp_info n. map_of sessions device = Some bgp_info \<and>
               n \<in> set (device_neighbors bgp_info) \<and> neighbor_failed n)) \<and>
         (\<forall>entry. map_of (failed_dict st) device = Some entry \<longrightarrow>
            (\<exists>bgp_info. map_of sessions device = Some bgp_info \<and>
               fst ` set entry =
                 {nbr. \<exists>vrf_name props. (vrf_name, nbr, props) \<in> set (device_neighbors bgp_info) \<and>
                         neighbor_failed (vrf_name, nbr, props)} \<and>
               (\<forall>nbr props. (nbr, props) \<in> set entry \<longrightarrow>
                  (\<exists>vrf_name. (vrf_name, nbr, props) \<in> set (device_neighbors bgp_info) \<and>
                     neighbor_failed (vrf_name, nbr, props)))))"
proof -
  note m = map_of_failed_dict [OF assms, of device]
  have "device \<in> fst ` set (failed_dict st) \<longleftrightarrow> map_of (failed_dict st) device \<noteq> None"
    by (simp add: map_of_eq_None_iff)
  also have "\<dots> \<longleftrightarrow> (\<exists>bgp_info n. map_of sessions device = Some bgp_info \<and>
               n \<in> set (device_neighbors bgp_info) \<and> neighbor_failed n)"
    by (auto simp: m filter_empty_conv split: option.splits)
  finally have first: "device \<in> fst ` set (failed_dict st) \<longleftrightarrow>
            (\<exists>bgp_info n. map_of sessions device = Some bgp_info \<and>
               n \<in> set (device_neighbors bgp_info) \<and> neighbor_failed n)" .
  have second: "\<exists>bgp_info. map_of sessions device = Some bgp_info \<and>
               fst ` set entry =
                 {nbr. \<exists>vrf_name props. (vrf_name, nbr, props) \<in> set (device_neighbors bgp_info) \<and>
                         neighbor_failed (vrf_name, nbr, props)} \<and>
               (\<forall>nbr props. (nbr, props) \<in> set entry \<longrightarrow>
                  (\<exists>vrf_name. (vrf_name, nbr, props) \<in> set (device_neighbors bgp_info) \<and>
                     neighbor_failed (vrf_name, nbr, props)))"
    if e: "map_of (failed_dict st) device = Some entry" for entry
  proof -
    from e m obtain bgp_info where
      i: "map_of sessions device = Some bgp_info" and
      entry: "entry = setitems [] (filter neighbor_failed (device_neighbors bgp_info))"
      by (auto split: option.splits if_splits)
    have "fst ` set entry =
            {nbr. \<exists>vrf_name props. (vrf_name, nbr, props) \<in> set (device_neighbors bgp_info) \<and>
                         neighbor_failed (vrf_name, nbr, props)}"
      unfolding entry keys_setitems_Nil by force
    moreover have "\<exists>vrf_name. (vrf_name, nbr, props) \<in> set (device_neighbors bgp_info) \<and>
                     neighbor_failed (vrf_name, nbr, props)"
      if "(nbr, props) \<in> set entry" for nbr props
      using set_setitems_Nil [OF that [unfolded entry]] by auto
    ultimately show ?thesis
      using i by blast
  qed
  from first second show ?thesis
    by blast
qed

theorem failure_index_exact_witness:
  "check_bgp two_devices = Inr two_devices_result \<and> distinct (map fst two_devices) \<and>
   ''R2'' \<in> fst ` set (failed_dict (fst two_devices_result)) \<and>
   (\<exists>bgp_info. map_of two_devices ''R2'' = Some bgp_info \<and>
      {''10.0.0.2''} =
        {nbr. \<exists>vrf_name props. (vrf_name, nbr, props) \<in> set (device_neighbors bgp_info) \<and>
                neighbor_failed (vrf_name, nbr, props)})"
proof -
  have h1: "check_bgp two_devices = Inr (fst two_devices_result, snd two_devices_result)"
    by (simp add: check_bgp_two_devices)
  have h2: "distinct (map fst two_devices)"
    by (simp add: two_devices_def)
  have e: "map_of (failed_dict (fst two_devices_result)) ''R2'' =
             Some [(''10.0.0.2'', PDict [(''session_state'', PStr ''Idle'')])]"
    by (simp add: two_devices_result_def)
  have "''R2'' \<in> fst ` set (failed_dict (fst two_devices_result))"
    by (simp add: two_devices_result_def)
  with failure_index_exact [OF h1 h2, of "''R2''"] e h1 h2 show ?thesis
    by auto
qed

text \<open>
  Claim C5: missing levels count as no neighbours. For a snapshot without \<^verbatim>\<open>instance\<close>,
  without the \<^verbatim>\<open>default\<close> instance or without its \<^verbatim>\<open>vrf\<close>, the pass of the device loop
  changes neither the table nor the failure dictionary (it logs the header and the table
  as it stands) and goes on with the next device; for a VRF without \<^verbatim>\<open>neighbor\<close> the
  pass of the VRF loop changes nothing and goes on with the next VRF; and on snapshots
  that all miss such a level \<^verbatim>\<open>check_bgp\<close> returns (it raises nothing) with
  \<open>Passed\<close>, an empty table and an empty failure dictionary.
\<close>

theorem missing_levels_are_empty:
  "(vrf_level_missing bgp_info \<longrightarrow>
      device_loop ((device, bgp_info) # rest) st =
        device_loop rest
          (st\<lparr>log := log st @
             [LogInfo (''Device '' @ device @ '' BGP Neighbors:'' @ [CHR 0x0A]),
              LogTable table_headers (results_table st)]\<rparr>)) \<and>
   (neighbor_level_missing vrf_data \<longrightarrow>
      vrf_loop device ((vrf_name, vrf_data) # vrfs) st = vrf_loop device vrfs st) \<and>
   (list_all (\<lambda>s. vrf_level_missing (snd s)) sessions \<longrightarrow>
      (\<exists>st'. check_bgp sessions =
               Inr (st', AEtestPassedSignal ''All BGP neighbors are established.'') \<and>
             failed_dict st' = [] \<and> results_table st' = []))"
proof -
  have a: "device_loop ((device, bgp_info) # rest) st =
        device_loop rest
          (st\<lparr>log := log st @
             [LogInfo (''Device '' @ device @ '' BGP Neighbors:'' @ [CHR 0x0A]),
              LogTable table_headers (results_table st)]\<rparr>)"
    if "vrf_level_missing bgp_info"
    using device_vrfs_missing [OF that] by simp
  have b: "vrf_loop device ((vrf_name, vrf_data) # vrfs) st = vrf_loop device vrfs st"
    if "neighbor_level_missing vrf_data"
    using vrf_neighbors_missing [OF that] by simp
  have c: "\<exists>st'. check_bgp sessions =
               Inr (st', AEtestPassedSignal ''All BGP neighbors are established.'') \<and>
             failed_dict st' = [] \<and> results_table st' = []"
    if m: "list_all (\<lambda>s. vrf_level_missing (snd s)) sessions"
  proof -
    from m have "list_all (\<lambda>s. snapshot_ok (snd s)) sessions"
      by (simp add: list_all_iff snapshot_ok_missing)
    from check_bgp_total [OF this] obtain st' sig where r: "check_bgp sessions = Inr (st', sig)"
      by blast
    from m have e: "\<forall>s\<in>set sessions. device_neighbors (snd s) = []"
      by (simp add: list_all_iff device_neighbors_missing)
    from check_bgp_Inr [OF r] all_failures_empty [OF e, of "[]"] device_rows_empty [OF e]
    have "failed_dict st' = []" "results_table st' = []"
      "sig = AEtestPassedSignal ''All BGP neighbors are established.''"
      by simp_all
    with r show ?thesis by blast
  qed
  from a b c show ?thesis by blast
qed

theorem missing_levels_are_empty_witness:
  "vrf_level_missing (PDict [(''instance'', PDict [])]) \<and>
   neighbor_level_missing (PDict [(''description'', PStr ''blue'')]) \<and>
   list_all (\<lambda>s. vrf_level_missing (snd s)) no_neighbors \<and>
   device_loop [(''R2'', PDict [(''instance'', PDict [])])]
       \<lparr>failed_dict = [], results_table = [], log = []\<rparr> =
     Inr \<lparr>failed_dict = [], results_table = [],
          log = [LogInfo (''Device R2 BGP Neighbors:'' @ [CHR 0x0A]), LogTable table_headers []]\<rparr> \<and>
   vrf_loop ''R2'' [(''blue'', PDict [(''description'', PStr ''blue'')])]
       \<lparr>failed_dict = [], results_table = [], log = []\<rparr> =
     Inr \<lparr>failed_dict = [], results_table = [], log = []\<rparr> \<and>
   (\<exists>st'. check_bgp no_neighbors =
            Inr (st', AEtestPassedSignal ''All BGP neighbors are established.'') \<and>
          failed_dict st' = [] \<and> results_table st' = [])"
proof -
  have h1: "vrf_level_missing (PDict [(''instance'', PDict [])])"
    by (simp add: vrf_level_missing_def)
  have h2: "neighbor_level_missing (PDict [(''description'', PStr ''blue'')])"
    by (simp add: neighbor_level_missing_def)
  have h3: "list_all (\<lambda>s. vrf_level_missing (snd s)) no_neighbors"
    by (simp add: no_neighbors_def vrf_level_missing_def)
  from missing_levels_are_empty [where bgp_info = "PDict [(''instance'', PDict [])]"
      and device = "''R2''" and rest = "[]"
      and st = "\<lparr>failed_dict = [], results_table = [], log = []\<rparr>"
      and vrf_data = "PDict [(''description'', PStr ''blue'')]" and vrf_name = "''blue''"
      and vrfs = "[]" and sessions = no_neighbors] h1 h2 h3
  show ?thesis
    by simp
qed

text \<open>
  Claim C6: the final outcome. When \<^verbatim>\<open>check_bgp\<close> returns, the signal is the failure if and
  only if the failure dictionary is not empty, and then the last log entry is the dump of
  that dictionary; otherwise the signal is the pass and nothing is dumped. The dictionary
  and the table are those of all devices (a failure on one device does not stop the
  loop), and one table is logged per device. On snapshots that are walked without an
  exception and hold no neighbour, \<^verbatim>\<open>check_bgp\<close> returns the pass with an empty failure
  dictionary.
\<close>

theorem final_outcome:
  "(check_bgp sessions = Inr (st, sig) \<longrightarrow>
      (sig = AEtestFailedSignal ''Some BGP neighbors are not established.'' [] \<longleftrightarrow>
         failed_dict st \<noteq> []) \<and>
      (sig = AEtestPassedSignal ''All BGP neighbors are established.'' \<longleftrightarrow>
         failed_dict st = []) \<and>
      (failed_dict st \<noteq> [] \<longrightarrow> last (log st) = LogErrorJson (failed_dict st)) \<and>
      (failed_dict st = [] \<longrightarrow> (\<forall>fd. LogErrorJson fd \<notin> set (log st))) \<and>
      failed_dict st = all_failures [] sessions \<and>
      results_table st = device_rows sessions \<and>
      length (filter is_table (log st)) = length sessions) \<and>
   (list_all (\<lambda>s. snapshot_ok (snd s)) sessions \<and>
    list_all (\<lambda>s. device_neighbors (snd s) = []) sessions \<longrightarrow>
      (\<exists>st'. check_bgp sessions =
               Inr (st', AEtestPassedSignal ''All BGP neighbors are established.'') \<and>
             failed_dict st' = []))"
proof -
  have a: "(sig = AEtestFailedSignal ''Some BGP neighbors are not established.'' [] \<longleftrightarrow>
         failed_dict st \<noteq> []) \<and>
      (sig = AEtestPassedSignal ''All BGP neighbors are established.'' \<longleftrightarrow>
         failed_dict st = []) \<and>
      (failed_dict st \<noteq> [] \<longrightarrow> last (log st) = LogErrorJson (failed_dict st)) \<and>
      (failed_dict st = [] \<longrightarrow> (\<forall>fd. LogErrorJson fd \<notin> set (log st))) \<and>
      failed_dict st = all_failures [] sessions \<and>
      results_table st = device_rows sessions \<and>
      length (filter is_table (log st)) = length sessions"
    if r: "check_bgp sessions = Inr (st, sig)"
    using check_bgp_Inr [OF r]
    by (simp add: device_logs_no_json tables_device_logs is_table_def)
  have b: "\<exists>st'. check_bgp sessions =
               Inr (st', AEtestPassedSignal ''All BGP neighbors are established.'') \<and>
             failed_dict st' = []"
    if ok: "list_all (\<lambda>s. snapshot_ok (snd s)) sessions"
      and none: "list_all (\<lambda>s. device_neighbors (snd s) = []) sessions"
  proof -
    from check_bgp_total [OF ok] obtain st' sig' where r: "check_bgp sessions = Inr (st', sig')"
      by blast
    from none have e: "\<forall>s\<in>set sessions. device_neighbors (snd s) = []"
      by (simp add: list_all_iff)
    from check_bgp_Inr [OF r] all_failures_empty [OF e, of "[]"]
    have "failed_dict st' = []" "sig' = AEtestPassedSignal ''All BGP neighbors are established.''"
      by simp_all
    with r show ?thesis by blast
  qed
  from a b show ?thesis by blast
qed

theorem final_outcome_witness:
  "check_bgp two_devices = Inr two_devices_result \<and>
   snd two_devices_result = AEtestFailedSignal ''Some BGP neighbors are not established.'' [] \<and>
   failed_dict (fst two_devices_result) \<noteq> [] \<and>
   last (log (fst two_devices_result)) = LogErrorJson (failed_dict (fst two_devices_result)) \<and>
   results_table (fst two_devices_result) = device_rows two_devices \<and>
   length (filter is_table (log (fst two_devices_result))) = length two_devices \<and>
   list_all (\<lambda>s. snapshot_ok (snd s)) no_neighbors \<and>
   list_all (\<lambda>s. device_neighbors (snd s) = []) no_neighbors \<and>
   (\<exists>st'. check_bgp no_neighbors =
            Inr (st', AEtestPassedSignal ''All BGP neighbors are established.'') \<and>
          failed_dict st' = [])"
proof -
  have h1: "check_bgp two_devices = Inr (fst two_devices_result, snd two_devices_result)"
    by (simp add: check_bgp_two_devices)
  have h2: "list_all (\<lambda>s. snapshot_ok (snd s)) no_neighbors"
    by (simp add: no_neighbors_def snapshot_ok_def device_vrfs_def)
  have h3: "list_all (\<lambda>s. device_neighbors (snd s) = []) no_neighbors"
    by (simp add: no_neighbors_def device_neighbors_def device_vrfs_def)
  have h4: "failed_dict (fst two_devices_result) \<noteq> []"
    by (simp add: two_devices_result_def)
  have a: "snd two_devices_result = AEtestFailedSignal ''Some BGP neighbors are not established.'' [] \<and>
   last (log (fst two_devices_result)) = LogErrorJson (failed_dict (fst two_devices_result)) \<and>
   results_table (fst two_devices_result) = device_rows two_devices \<and>
   length (filter is_table (log (fst two_devices_result))) = length two_devices"
    using final_outcome [where sessions = two_devices and st = "fst two_devices_result"
      and sig = "snd two_devices_result"] h1 h4
    by blast
  have b: "\<exists>st'. check_bgp no_neighbors =
            Inr (st', AEtestPassedSignal ''All BGP neighbors are established.'') \<and>
          failed_dict st' = []"
    using final_outcome [where sessions = no_neighbors] h2 h3
    by blast
  from check_bgp_two_devices a b h2 h3 h4 show ?thesis
    by blast
qed

text \<open>
  Claim C7: a device without \<^verbatim>\<open>info\<close> ends the collection. When the devices before \<open>d\<close>
  have a snapshot and \<open>d\<close> has none, \<^verbatim>\<open>learn_bgp\<close> ends with the failure that names \<open>d\<close>
  and goes to \<^verbatim>\<open>common_cleanup\<close>; the snapshots collected are those of the devices
  before \<open>d\<close>, no device after \<open>d\<close> is asked, and \<^verbatim>\<open>check_bgp\<close> does not run.
\<close>

theorem learn_failure_skips_to_cleanup:
  assumes "devices params = Some (pre @ d # post)"
    and "list_all (\<lambda>x. learnt_info x \<noteq> None) pre"
    and "learnt_info d = None"
  shows "BGPNeighborsEstablished params =
     (Inr (collected [] pre, gathering (pre @ [d]),
           Some (AEtestFailedSignal (''Failed to learn BGP info from device '' @ name d)
                   [''common_cleanup''])),
      NotRun)"
  using assms learn_loop_stops [OF assms(2,3), of post "[]" "[]"]
  by (simp add: BGPNeighborsEstablished_def learn_bgp_def goto_of_def)

theorem learn_failure_skips_to_cleanup_witness:
  "devices \<lparr>testbed = None, devices = Some ([R1] @ R2 # [R1])\<rparr> = Some ([R1] @ R2 # [R1]) \<and>
   list_all (\<lambda>x. learnt_info x \<noteq> None) [R1] \<and> learnt_info R2 = None \<and>
   BGPNeighborsEstablished \<lparr>testbed = None, devices = Some ([R1] @ R2 # [R1])\<rparr> =
     (Inr ([(''R1'', bgp_snapshot [(''default'', [(''10.0.0.1'', ''Established'')])])],
           [LogBanner ''Gathering BGP Information from R1'',
            LogBanner ''Gathering BGP Information from R2''],
           Some (AEtestFailedSignal ''Failed to learn BGP info from device R2''
                   [''common_cleanup''])),
      NotRun)"
proof -
  have h1: "devices \<lparr>testbed = None, devices = Some ([R1] @ R2 # [R1])\<rparr> = Some ([R1] @ R2 # [R1])"
    by simp
  have h2: "list_all (\<lambda>x. learnt_info x \<noteq> None) [R1]"
    by (simp add: R1_def)
  have h3: "learnt_info R2 = None"
    by (simp add: R2_def)
  from learn_failure_skips_to_cleanup [OF h1 h2 h3] h1 h2 h3 show ?thesis
    by (simp add: collected_def gathering_def R1_def R2_def)
qed

text \<open>
  Claim C8: the evaluation is deterministic and can be repeated. Let the store hold the
  mapping of snapshots (the reference \<open>all_bgp_sessions\<close> denotes the dictionary
  \<open>sessions\<close>), and let \<^verbatim>\<open>check_bgp\<close> run on it and then again on the store it left. If the
  first run raised, the second raises the same exception. If it returned, the second
  returns the same table (the same rows in the same order) and the same signal, and in
  the final store the two failure dictionaries denote the same value; table and
  failures are those of the first model.
\<close>

theorem check_bgp_twice:
  assumes "repr h all_bgp_sessions (PDict sessions)"
    and "check_bgp_store h all_bgp_sessions = (h1, r1)"
  shows "\<exists>h2 r2.
           check_bgp_store h1 all_bgp_sessions = (h2, r2) \<and>
           (case r1 of
              Inl e \<Rightarrow> r2 = Inl e \<and> check_bgp sessions = Inl e
            | Inr (fd1, rt1, sig1) \<Rightarrow>
                (\<exists>fd2 st.
                   r2 = Inr (fd2, rt1, sig1) \<and>
                   repr h2 fd1 (index_value (failed_dict st)) \<and>
                   repr h2 fd2 (index_value (failed_dict st)) \<and>
                   check_bgp sessions = Inr (st, sig1) \<and> results_table st = rt1))"
proof -
  note ref1 = check_bgp_store_refines [OF assms]
  from check_bgp_store_frame [OF assms(2)] have e1: "extends h h1"
    by (simp add: extends_def)
  from repr_mono(1) [OF e1 assms(1)] have r1: "repr h1 all_bgp_sessions (PDict sessions)" .
  obtain h2 r2 where run2: "check_bgp_store h1 all_bgp_sessions = (h2, r2)"
    by (cases "check_bgp_store h1 all_bgp_sessions")
  note ref2 = check_bgp_store_refines [OF r1 run2]
  from check_bgp_store_frame [OF run2] have e2: "extends h1 h2"
    by (simp add: extends_def)
  show ?thesis
  proof (cases "check_bgp sessions")
    case (Inl e)
    with ref1 ref2 run2 show ?thesis
      by simp
  next
    case (Inr x)
    obtain st sig where x: "x = (st, sig)" by (cases x)
    from ref1 Inr x obtain fd1 where
      r1': "r1 = Inr (fd1, results_table st, sig)" and i1: "index_repr h h1 fd1 (failed_dict st)"
      by auto
    from ref2 Inr x obtain fd2 where
      r2: "r2 = Inr (fd2, results_table st, sig)" and i2: "index_repr h1 h2 fd2 (failed_dict st)"
      by auto
    from index_repr_value [OF e1 i1] have "repr h1 fd1 (index_value (failed_dict st))" .
    from repr_mono(1) [OF e2 this] have a: "repr h2 fd1 (index_value (failed_dict st))" .
    from index_repr_value [OF e2 i2] have b: "repr h2 fd2 (index_value (failed_dict st))" .
    from run2 r1' r2 a b Inr x show ?thesis
      by auto
  qed
qed

theorem check_bgp_twice_witness:
  "repr example_store (HRef 0) (PDict two_devices) \<and>
   check_bgp_store example_store (HRef 0) =
     (example_store_after,
      Inr (HRef 15, example_rows,
           AEtestFailedSignal ''Some BGP neighbors are not established.'' [])) \<and>
   (\<exists>h2 fd2 st.
      check_bgp_store example_store_after (HRef 0) =
        (h2, Inr (fd2, example_rows,
                  AEtestFailedSignal ''Some BGP neighbors are not established.'' [])) \<and>
      repr h2 (HRef 15) (index_value (failed_dict st)) \<and>
      repr h2 fd2 (index_value (failed_dict st)) \<and>
      check_bgp two_devices =
        Inr (st, AEtestFailedSignal ''Some BGP neighbors are not established.'' []) \<and>
      results_table st = example_rows)"
  using check_bgp_twice [OF repr_example_store check_bgp_store_example]
    repr_example_store check_bgp_store_example
  by auto

text \<open>
  Claim C9: the evaluation does not write to its input. Whatever \<^verbatim>\<open>check_bgp\<close> returns or
  raises, every object that was in the store before is in it unchanged afterwards: the
  mapping of snapshots and all that it refers to. The failure dictionary (at \<open>a\<close>) and the
  dictionary of a device in it (at \<open>b\<close>) are new objects, while a reference stored under a
  neighbour points to an object of the input, which is the unchanged object itself and
  no copy of it.
\<close>

theorem check_bgp_keeps_input:
  "(check_bgp_store h all_bgp_sessions = (h', r) \<longrightarrow> take (length h) h' = h) \<and>
   (repr h all_bgp_sessions (PDict sessions) \<and>
    check_bgp_store h all_bgp_sessions = (h', Inr (HRef a, rt, sig)) \<and>
    (device, HRef b) \<in> set (h' ! a) \<and> (nbr, HRef c) \<in> set (h' ! b) \<longrightarrow>
      length h \<le> a \<and> a < b \<and> c < length h \<and> h' ! c = h ! c)"
proof -
  have frame: "take (length h) h' = h" if "check_bgp_store h all_bgp_sessions = (h', r)" for r
    using check_bgp_store_frame [OF that] by simp
  have shared: "length h \<le> a \<and> a < b \<and> c < length h \<and> h' ! c = h ! c"
    if r: "repr h all_bgp_sessions (PDict sessions)"
      and run: "check_bgp_store h all_bgp_sessions = (h', Inr (HRef a, rt, sig))"
      and d: "(device, HRef b) \<in> set (h' ! a)" and n: "(nbr, HRef c) \<in> set (h' ! b)"
  proof -
    note ref = check_bgp_store_refines [OF r run]
    then obtain st sig' where v: "check_bgp sessions = Inr (st, sig')"
      by (cases "check_bgp sessions") auto
    with ref have i: "index_repr h h' (HRef a) (failed_dict st)"
      by simp
    then have l: "list_all2 (\<lambda>kv ke. fst kv = fst ke \<and> entry_repr h h' a (snd kv) (snd ke))
                    (h' ! a) (failed_dict st)"
      and a: "length h \<le> a"
      by (simp_all add: index_repr_def)
    from d l obtain ke where e: "entry_repr h h' a (HRef b) (snd ke)"
      by (auto simp: list_all2_conv_all_nth in_set_conv_nth)
    then have "repr_items h (h' ! b) (snd ke)" and b: "a < b"
      by (simp_all add: entry_repr_def)
    from repr_items_mem [OF this(1) n] obtain p where "repr h (HRef c) p"
      by blast
    then have c: "c < length h"
      by (auto simp: repr_HRef_iff)
    from frame [OF run] have "extends h h'"
      by (simp add: extends_def)
    from extends_nth [OF this c] a b c show ?thesis
      by simp
  qed
  from frame shared show ?thesis
    by blast
qed

theorem check_bgp_keeps_input_witness:
  "check_bgp_store example_store (HRef 0) =
     (example_store_after,
      Inr (HRef 15, example_rows,
           AEtestFailedSignal ''Some BGP neighbors are not established.'' [])) \<and>
   repr example_store (HRef 0) (PDict two_devices) \<and>
   (''R2'', HRef 24) \<in> set (example_store_after ! 15) \<and>
   (''10.0.0.2'', HRef 14) \<in> set (example_store_after ! 24) \<and>
   take (length example_store) example_store_after = example_store \<and>
   length example_store \<le> 15 \<and> (15::nat) < 24 \<and>
   14 < length example_store \<and> example_store_after ! 14 = example_store ! 14"
proof -
  have d: "(''R2'', HRef 24) \<in> set (example_store_after ! 15)"
    by (simp add: example_store_after_def example_store_def)
  have n: "(''10.0.0.2'', HRef 14) \<in> set (example_store_after ! 24)"
    by (simp add: example_store_after_def example_store_def)
  from check_bgp_keeps_input [where h = example_store and all_bgp_sessions = "HRef 0"
      and h' = example_store_after and sessions = two_devices and a = 15 and b = 24 and c = 14
      and device = "''R2''" and nbr = "''10.0.0.2''" and rt = example_rows
      and sig = "AEtestFailedSignal ''Some BGP neighbors are not established.'' []"
      and r = "Inr (HRef 15, example_rows,
                    AEtestFailedSignal ''Some BGP neighbors are not established.'' [])"]
    check_bgp_store_example repr_example_store d n
  show ?thesis
    by blast
qed

text \<open>
  Claim C10: one address under two VRFs. When the neighbours of a device hold the address
  \<open>nbr\<close> under \<open>vrf1\<close> and later under \<open>vrf2\<close>, both failed, and no later neighbour with
  that address failed, the table holds the rows of all the neighbours of the device, one
  per neighbour and so one for each of the two, while the entry of the device in the
  failure dictionary holds the address once, with the attributes of the later one.
\<close>

theorem duplicate_address_last_wins:
  assumes "check_bgp sessions = Inr (st, sig)" and "distinct (map fst sessions)"
    and "map_of sessions device = Some bgp_info"
    and "device_neighbors bgp_info = xs @ (vrf1, nbr, props1) # ys @ (vrf2, nbr, props2) # zs"
    and "neighbor_failed (vrf1, nbr, props1)" and "neighbor_failed (vrf2, nbr, props2)"
    and "\<forall>n\<in>set zs. fst (snd n) = nbr \<longrightarrow> \<not> neighbor_failed n"
  shows "\<exists>entry pre post.
           map_of (failed_dict st) device = Some entry \<and>
           filter (\<lambda>e. fst e = nbr) entry = [(nbr, props2)] \<and>
           results_table st =
             pre @ map neighbor_row (xs @ (vrf1, nbr, props1) # ys @ (vrf2, nbr, props2) # zs) @ post"
proof -
  let ?F = "filter neighbor_failed (device_neighbors bgp_info)"
  let ?entry = "setitems [] ?F"
  have F: "?F = filter neighbor_failed (xs @ (vrf1, nbr, props1) # ys) @ (vrf2, nbr, props2) #
             filter neighbor_failed zs"
    using assms(4,5,6) by simp
  then have ne: "?F \<noteq> []"
    by simp
  with map_of_failed_dict [OF assms(1,2), of device] assms(3)
  have e: "map_of (failed_dict st) device = Some ?entry"
    by simp
  have "nbr \<notin> fst ` set (rev (map snd (filter neighbor_failed zs)))"
    using assms(7) by force
  then have "map_of (rev (map snd (filter neighbor_failed zs))) nbr = None"
    by (simp add: map_of_eq_None_iff)
  then have "map_of (rev (map snd ?F)) nbr = Some props2"
    unfolding F by (simp add: map_add_def)
  then have "map_of ?entry nbr = Some props2"
    by (simp add: map_of_setitems)
  moreover have "distinct (map fst ?entry)"
    by (rule distinct_setitems) simp
  ultimately have one: "filter (\<lambda>e. fst e = nbr) ?entry = [(nbr, props2)]"
    by (rule distinct_filter_key [rotated])
  from assms(3) obtain before after where
    split: "sessions = before @ (device, bgp_info) # after"
    by (meson map_of_SomeD split_list)
  from check_bgp_Inr [OF assms(1)] have "results_table st = device_rows sessions"
    by simp
  then have "results_table st =
     device_rows before @ map neighbor_row (device_neighbors bgp_info) @ device_rows after"
    by (simp add: split device_rows_def)
  with e one assms(4) show ?thesis
    by metis
qed

theorem duplicate_address_last_wins_witness:
  "check_bgp two_vrfs = Inr two_vrfs_result \<and> distinct (map fst two_vrfs) \<and>
   (\<exists>entry pre post.
      map_of (failed_dict (fst two_vrfs_result)) ''R1'' = Some entry \<and>
      filter (\<lambda>e. fst e = ''10.0.0.1'') entry =
        [(''10.0.0.1'', PDict [(''session_state'', PStr ''Active'')])] \<and>
      results_table (fst two_vrfs_result) =
        pre @ map neighbor_row
          ([] @ (''default'', ''10.0.0.1'', PDict [(''session_state'', PStr ''Idle'')]) #
           [(''default'', ''10.0.0.2'', PDict [(''session_state'', PStr ''Established'')])] @
           (''blue'', ''10.0.0.1'', PDict [(''session_state'', PStr ''Active'')]) # []) @ post)"
proof -
  let ?info = "bgp_snapshot
         [(''default'', [(''10.0.0.1'', ''Idle''), (''10.0.0.2'', ''Established'')]),
          (''blue'', [(''10.0.0.1'', ''Active'')])]"
  have h1: "check_bgp two_vrfs = Inr (fst two_vrfs_result, snd two_vrfs_result)"
    by (simp add: check_bgp_two_vrfs)
  have h2: "distinct (map fst two_vrfs)"
    by (simp add: two_vrfs_def)
  have h3: "map_of two_vrfs ''R1'' = Some ?info"
    by (simp add: two_vrfs_def)
  have h4: "device_neighbors ?info =
     [] @ (''default'', ''10.0.0.1'', PDict [(''session_state'', PStr ''Idle'')]) #
     [(''default'', ''10.0.0.2'', PDict [(''session_state'', PStr ''Established'')])] @
     (''blue'', ''10.0.0.1'', PDict [(''session_state'', PStr ''Active'')]) # []"
    by (simp add: neighbors_two_vrfs)
  have h5: "neighbor_failed (''default'', ''10.0.0.1'', PDict [(''session_state'', PStr ''Idle'')])"
    by (rule failed_examples)
  have h6: "neighbor_failed (''blue'', ''10.0.0.1'', PDict [(''session_state'', PStr ''Active'')])"
    by (rule failed_examples)
  have h7: "\<forall>n\<in>set []. fst (snd n) = ''10.0.0.1'' \<longrightarrow> \<not> neighbor_failed n"
    by simp
  from duplicate_address_last_wins [OF h1 h2 h3 h4 h5 h6 h7] h1 h2 show ?thesis
    by simp
qed

end
